theory Spec2Isabelle
  imports Main "HOL-Library.AList"
begin

section \<open>Wire bytes and argument splitting\<close>

text \<open>
  Byte slices are modelled as \<open>string\<close> (lists of 8-bit characters).
\<close>

subsection \<open>Machine integers\<close>

text \<open>
  Go's \<open>int\<close> and \<open>int64\<close> are two's complement integers. They are modelled as HOL
  integers on which every arithmetic operation of the source is followed by the
  wrap-around into the type's range. \<open>int\<close> is taken at 64 bits (the amd64 build);
  the theorems state their no-overflow bounds through \<open>min_int\<close> and \<open>max_int\<close>.
\<close>

definition wrap_bits :: "nat \<Rightarrow> int \<Rightarrow> int" where
  "wrap_bits n i = (i + 2 ^ (n - 1)) mod 2 ^ n - 2 ^ (n - 1)"

definition int_bits :: nat where
  "int_bits = 64"

definition min_int :: int where
  "min_int = - (2 ^ (int_bits - 1))"

definition max_int :: int where
  "max_int = 2 ^ (int_bits - 1) - 1"

definition wrap_int :: "int \<Rightarrow> int" where
  "wrap_int i = wrap_bits int_bits i"

definition wrap_int64 :: "int \<Rightarrow> int" where
  "wrap_int64 i = wrap_bits 64 i"

definition CR_LF :: string where
  "CR_LF = [CHR 0x0D, CHR 0x0A]"

definition defaultBufSize :: nat where
  "defaultBufSize = 32768"

definition is_space :: "char \<Rightarrow> bool" where
  "is_space b = (b = CHR '' '' \<or> b = CHR 0x09 \<or> b = CHR 0x0D \<or> b = CHR 0x0A)"

text \<open>\<open>slice arg lo hi\<close> is Go's \<open>arg[lo:hi]\<close> for \<open>lo \<le> hi \<le> len(arg)\<close>.\<close>

definition slice :: "string \<Rightarrow> nat \<Rightarrow> nat \<Rightarrow> string" where
  "slice arg lo hi = take (hi - lo) (drop lo arg)"

text \<open>
  One iteration of the loop \<open>for i, b := range arg\<close> shared by \<open>processPub\<close> (where it
  is unrolled) and \<open>splitArg\<close>. The loop state is the pair \<open>(args, start)\<close>, with
  \<open>start = -1\<close> outside a field. \<open>append\<close> grows the slice past \<open>argsLenMax\<close>, so no
  field is ever dropped.
\<close>

definition splitArg_step :: "string \<Rightarrow> nat \<Rightarrow> string list \<times> int \<Rightarrow> string list \<times> int" where
  "splitArg_step arg i s =
     (case s of (args, start) \<Rightarrow>
        if is_space (arg ! i)
        then (if 0 \<le> start then (args @ [slice arg (nat start) i], - 1) else (args, start))
        else (if start < 0 then (args, int i) else (args, start)))"

definition splitArg :: "string \<Rightarrow> string list" where
  "splitArg arg =
     (case fold (splitArg_step arg) [0..<length arg] ([], - 1) of (args, start) \<Rightarrow>
        if 0 \<le> start then args @ [drop (nat start) arg] else args)"

text \<open>
  The splitting as the specification words it: whitespace separates fields, and runs of
  whitespace collapse. \<open>split_on\<close> cuts at every separator; \<open>spec_fields\<close> then drops
  the empty pieces.
\<close>

fun split_on :: "(char \<Rightarrow> bool) \<Rightarrow> string \<Rightarrow> string list" where
  "split_on P [] = [[]]"
| "split_on P (x # xs) =
     (if P x then [] # split_on P xs
      else (case split_on P xs of [] \<Rightarrow> [[x]] | w # ws \<Rightarrow> (x # w) # ws))"

definition spec_fields :: "string \<Rightarrow> string list" where
  "spec_fields s = filter (\<lambda>w. w \<noteq> []) (split_on is_space s)"

text \<open>
  Modelled from the spec: \<open>parseSize\<close> is defined outside \<open>client.go\<close>, which
  assigns its result to variables of type \<open>int\<close>. The specification requires the size
  field to be a non-negative ASCII integer; anything else is reported by the result
  \<open>-1\<close>. The decimal value of a digit string is \<open>spec_value\<close>; \<open>parseSize\<close>
  accumulates it in an \<open>int\<close>, so that it is \<open>spec_value\<close> whenever that fits
  (\<open>parseSize_fits\<close>). The specification says nothing about a digit string whose
  value does not fit, and no theorem below depends on the result there.
\<close>

definition is_digit :: "char \<Rightarrow> bool" where
  "is_digit c = (48 \<le> (of_char c :: nat) \<and> (of_char c :: nat) \<le> 57)"

definition spec_value :: "string \<Rightarrow> int" where
  "spec_value d = foldl (\<lambda>n c. n * 10 + (int (of_char c) - 48)) 0 d"

definition parseSize :: "string \<Rightarrow> int" where
  "parseSize d =
     (if d = [] \<or> \<not> list_all is_digit d then - 1
      else foldl (\<lambda>n c. wrap_int (n * 10 + (int (of_char c) - 48))) 0 d)"

text \<open>
  The specification's condition for a \<open>PUB\<close> argument to be a parse error: other than
  two or three fields, or a last field that is not a non-negative ASCII integer.
\<close>

definition spec_nonneg_int :: "string \<Rightarrow> bool" where
  "spec_nonneg_int d = (d \<noteq> [] \<and> list_all is_digit d)"

definition spec_pub_malformed :: "string \<Rightarrow> bool" where
  "spec_pub_malformed arg =
     (length (spec_fields arg) \<notin> {2, 3} \<or> \<not> spec_nonneg_int (last (spec_fields arg)))"

section \<open>Data model\<close>

text \<open>
  Sessions and subscriptions are heap objects in the source; both heaps are functions
  from addresses (natural numbers) to records, and the functions of \<open>client.go\<close> take
  and return the whole state. Logging and tracing have no effect on the state and are
  left out.
\<close>

subsection \<open>The buffered writer and the connection\<close>

text \<open>
  \<open>bufio.Writer\<close> and \<open>net.Conn\<close> belong to the Go library. The writer keeps a log
  \<open>out\<close> of the successful \<open>Write\<close> calls, in order; the first component of an entry
  is an annotation that names the subscription for which a \<open>MSG\<close> header was written
  (\<open>None\<close> for every other write). What the peer and the socket do is an input of the
  model: \<open>wq\<close> lists the results of the coming \<open>Write\<close> and \<open>Flush\<close> calls (all of
  them succeed once the list is used up), and \<open>avail\<close> is what \<open>Available()\<close> reports.
  \<open>WTimeout\<close> is a \<open>net.Error\<close> whose \<open>Timeout()\<close> holds, \<open>WFail\<close> any other error.
\<close>

datatype wres = WOk | WTimeout | WFail

record bufw =
  out :: "(nat option \<times> string) list"
  wq :: "wres list"
  avail :: nat

definition bw_Write :: "nat option \<Rightarrow> string \<Rightarrow> bufw \<Rightarrow> wres \<times> bufw" where
  "bw_Write tag p w =
     (case wq w of
        [] \<Rightarrow> (WOk, w\<lparr>out := out w @ [(tag, p)]\<rparr>)
      | r # rs \<Rightarrow>
          (if r = WOk then (WOk, w\<lparr>out := out w @ [(tag, p)], wq := rs\<rparr>)
           else (r, w\<lparr>wq := rs\<rparr>)))"

definition bw_Flush :: "bufw \<Rightarrow> wres \<times> bufw" where
  "bw_Flush w = (case wq w of [] \<Rightarrow> (WOk, w) | r # rs \<Rightarrow> (r, w\<lparr>wq := rs\<rparr>))"

text \<open>
  A connection is a \<open>*net.TCPConn\<close> or some other \<open>net.Conn\<close>; \<open>wdeadline\<close> tells
  whether a write deadline is armed. A \<open>nil\<close> connection is \<open>None\<close>.
\<close>

record netconn =
  tcp :: bool
  wdeadline :: bool

subsection \<open>Sessions, subscriptions, server\<close>

record clientOpts =
  Verbose :: bool
  Pedantic :: bool

text \<open>The fields of \<open>parseState.pa\<close> that \<open>client.go\<close> reads and writes.\<close>

record pubArg =
  pa_subject :: string
  pa_reply :: "string option"
  pa_size :: int
  pa_szb :: string

text \<open>
  \<open>srv\<close> tells whether \<open>c.srv\<close> is non-nil (there is one server). \<open>bw\<close>, \<open>subs\<close> and
  \<open>pcd\<close> are assigned when the session is created and never cleared in \<open>client.go\<close>, so
  they are always present. \<open>subs\<close> is the \<open>hashmap.HashMap\<close> from sid to subscription,
  \<open>atmr\<close> and \<open>ptmr\<close> tell whether the timer pointer is non-nil, \<open>mu\<close> whether the mutex is
  held.
\<close>

record client =
  mu :: bool
  cid :: nat
  opts :: clientOpts
  conn :: "netconn option"
  bw :: bufw
  srv :: bool
  subs :: "(string \<times> nat) list"
  pcd :: "nat set"
  atmr :: bool
  ptmr :: bool
  pout :: int
  pa :: pubArg
  inMsgs :: int
  inBytes :: int
  outMsgs :: int
  outBytes :: int

text \<open>
  A subscription; \<open>sub_client\<close> is the address of the owning session (it is set at
  creation and never nil), \<open>sub_queue = None\<close> is a nil queue.
\<close>

record subscription =
  sub_client :: nat
  sub_subject :: string
  sub_queue :: "string option"
  sub_sid :: string
  sub_nm :: int
  sub_max :: int

text \<open>An entry of the Subject Index: pattern, queue group, subscription address.\<close>

type_synonym sl_entry = "string \<times> string option \<times> nat"

text \<open>
  The state: the two heaps, the next free subscription address, and the fields of the
  one \<open>Server\<close> that \<open>client.go\<close> uses (\<open>sl\<close>, the registry of sessions, the
  counters, and \<open>opts.MaxPingsOut\<close>).
\<close>

record state =
  clients :: "nat \<Rightarrow> client"
  subscriptions :: "nat \<Rightarrow> subscription"
  nsubs :: nat
  sl :: "sl_entry list"
  srv_clients :: "nat set"
  srv_inMsgs :: int
  srv_inBytes :: int
  srv_outMsgs :: int
  srv_outBytes :: int
  MaxPingsOut :: int

datatype error =
  PubParseError string
| PubBadSize string
| SubParseError string
| UnsubParseError string

definition upd_client :: "nat \<Rightarrow> (client \<Rightarrow> client) \<Rightarrow> state \<Rightarrow> state" where
  "upd_client c f st = st\<lparr>clients := (clients st)(c := f (clients st c))\<rparr>"

definition upd_sub :: "nat \<Rightarrow> (subscription \<Rightarrow> subscription) \<Rightarrow> state \<Rightarrow> state" where
  "upd_sub r f st = st\<lparr>subscriptions := (subscriptions st)(r := f (subscriptions st r))\<rparr>"

definition lock :: "nat \<Rightarrow> state \<Rightarrow> state" where
  "lock c st = upd_client c (\<lambda>k. k\<lparr>mu := True\<rparr>) st"

definition unlock :: "nat \<Rightarrow> state \<Rightarrow> state" where
  "unlock c st = upd_client c (\<lambda>k. k\<lparr>mu := False\<rparr>) st"

definition client_Write :: "nat \<Rightarrow> nat option \<Rightarrow> string \<Rightarrow> state \<Rightarrow> wres \<times> state" where
  "client_Write c tag p st =
     (case bw_Write tag p (bw (clients st c)) of
        (r, w) \<Rightarrow> (r, upd_client c (\<lambda>k. k\<lparr>bw := w\<rparr>) st))"

definition client_Flush :: "nat \<Rightarrow> state \<Rightarrow> wres \<times> state" where
  "client_Flush c st =
     (case bw_Flush (bw (clients st c)) of
        (r, w) \<Rightarrow> (r, upd_client c (\<lambda>k. k\<lparr>bw := w\<rparr>) st))"

definition SetWriteDeadline :: "nat \<Rightarrow> bool \<Rightarrow> state \<Rightarrow> state" where
  "SetWriteDeadline c armed st =
     upd_client c (\<lambda>k. k\<lparr>conn := map_option (\<lambda>n. n\<lparr>wdeadline := armed\<rparr>) (conn k)\<rparr>) st"

section \<open>Collaborators outside \<open>client.go\<close>\<close>

subsection \<open>The sid-map\<close>

text \<open>
  Modelled from the spec: package \<open>hashmap\<close> is not among the sources. The session's
  sid-map is a mapping from sid to subscription; \<open>Set\<close> replaces the entry of a key
  that is present. \<open>All\<close> lists the values in the order of the association list.
\<close>

definition hm_Set :: "string \<Rightarrow> nat \<Rightarrow> (string \<times> nat) list \<Rightarrow> (string \<times> nat) list" where
  "hm_Set k v m = AList.update k v m"

definition hm_Get :: "(string \<times> nat) list \<Rightarrow> string \<Rightarrow> nat option" where
  "hm_Get m k = map_of m k"

definition hm_Remove :: "string \<Rightarrow> (string \<times> nat) list \<Rightarrow> (string \<times> nat) list" where
  "hm_Remove k m = AList.delete k m"

definition hm_All :: "(string \<times> nat) list \<Rightarrow> nat list" where
  "hm_All m = map snd m"

subsection \<open>The Subject Index\<close>

text \<open>
  Modelled from the spec: package \<open>sublist\<close> is not among the sources. A subject is a
  sequence of tokens separated by dots. Empty tokens, or a \<open>>\<close> token that is not the
  last one, make a subject invalid; a literal subject has no wildcard character. The
  trie of the specification is flattened to the list of its entries in insertion
  order, and the match cache, which the specification requires to be unobservable, is
  left out.
\<close>

definition tokens :: "string \<Rightarrow> string list" where
  "tokens s = split_on (\<lambda>b. b = CHR ''.'') s"

definition valid_subject :: "string \<Rightarrow> bool" where
  "valid_subject s =
     (let ts = tokens s in [] \<notin> set ts \<and> ''>'' \<notin> set (butlast ts))"

definition IsValidLiteralSubject :: "string \<Rightarrow> bool" where
  "IsValidLiteralSubject s =
     (let ts = tokens s in
      [] \<notin> set ts \<and> list_all (\<lambda>t. CHR ''*'' \<notin> set t \<and> CHR ''>'' \<notin> set t) ts)"

text \<open>
  \<open>tmatch ps ts\<close>: the pattern tokens \<open>ps\<close> match the literal tokens \<open>ts\<close>; \<open>*\<close> takes
  one token, \<open>>\<close> one or more trailing tokens.
\<close>

fun tmatch :: "string list \<Rightarrow> string list \<Rightarrow> bool" where
  "tmatch [] [] = True"
| "tmatch (p # ps) (t # ts) =
     (if p = ''>'' then True else if p = ''*'' \<or> p = t then tmatch ps ts else False)"
| "tmatch _ _ = False"

text \<open>\<open>Insert\<close> answers \<open>None\<close> when it rejects the subject.\<close>

definition sl_Insert :: "string \<Rightarrow> string option \<Rightarrow> nat \<Rightarrow> sl_entry list \<Rightarrow> sl_entry list option" where
  "sl_Insert subject q r es =
     (if valid_subject subject then Some (es @ [(subject, q, r)]) else None)"

text \<open>\<open>Remove\<close> drops the first entry under the pattern whose subscription is \<open>r\<close> itself.\<close>

fun sl_Remove :: "string \<Rightarrow> nat \<Rightarrow> sl_entry list \<Rightarrow> sl_entry list" where
  "sl_Remove subject r [] = []"
| "sl_Remove subject r (e # es) =
     (if fst e = subject \<and> snd (snd e) = r then es else e # sl_Remove subject r es)"

text \<open>
  \<open>Match\<close>: nothing for an invalid literal subject; otherwise the plain subscriptions
  in insertion order, then the queue subscriptions grouped by queue name.
\<close>

definition sl_Match :: "string \<Rightarrow> sl_entry list \<Rightarrow> nat list" where
  "sl_Match subject es =
     (if \<not> IsValidLiteralSubject subject then []
      else
        let ms = filter (\<lambda>e. tmatch (tokens (fst e)) (tokens subject)) es;
            qs = remdups (map (\<lambda>e. fst (snd e)) (filter (\<lambda>e. fst (snd e) \<noteq> None) ms))
        in map (\<lambda>e. snd (snd e)) (filter (\<lambda>e. fst (snd e) = None) ms) @
           concat (map (\<lambda>q. map (\<lambda>e. snd (snd e)) (filter (\<lambda>e. fst (snd e) = q) ms)) qs))"

subsection \<open>The registry of sessions\<close>

text \<open>
  Modelled from the spec: \<open>Server.removeClient\<close> is not among the sources; it unhooks the
  session from the registry.
\<close>

definition removeClient :: "nat \<Rightarrow> state \<Rightarrow> state" where
  "removeClient c st = st\<lparr>srv_clients := srv_clients st - {c}\<rparr>"

section \<open>The functions of \<open>client.go\<close>\<close>

text \<open>\<open>err_line err\<close> is \<open>fmt.Sprintf("-ERR '%s'\r\n", err)\<close>.\<close>

definition err_line :: "string \<Rightarrow> string" where
  "err_line err = ''-ERR '' @ [CHR 0x27] @ err @ [CHR 0x27] @ CR_LF"

definition sendErr :: "nat \<Rightarrow> string \<Rightarrow> state \<Rightarrow> state" where
  "sendErr c err st =
     (let st1 = lock c st;
          st2 = snd (client_Write c None (err_line err) st1);
          st3 = upd_client c (\<lambda>k. k\<lparr>pcd := insert c (pcd k)\<rparr>) st2
      in unlock c st3)"

definition sendOK :: "nat \<Rightarrow> state \<Rightarrow> state" where
  "sendOK c st =
     (let st1 = lock c st;
          st2 = snd (client_Write c None (''+OK'' @ CR_LF) st1);
          st3 = upd_client c (\<lambda>k. k\<lparr>pcd := insert c (pcd k)\<rparr>) st2
      in unlock c st3)"

definition processPong :: "nat \<Rightarrow> state \<Rightarrow> state" where
  "processPong c st = unlock c (upd_client c (\<lambda>k. k\<lparr>pout := wrap_int (pout k - 1)\<rparr>) (lock c st))"

text \<open>
  \<open>processPub\<close>: the split loop, then the \<open>switch len(args)\<close>. The result is the
  returned error (\<open>None\<close> for nil) and the state; the fields of \<open>c.pa\<close> are assigned
  before the size is checked.
\<close>

definition processPub :: "nat \<Rightarrow> string \<Rightarrow> state \<Rightarrow> error option \<times> state" where
  "processPub c arg st =
     (case
        (case splitArg arg of
           [a0, a1] \<Rightarrow>
             Some \<lparr>pa_subject = a0, pa_reply = None, pa_size = parseSize a1, pa_szb = a1\<rparr>
         | [a0, a1, a2] \<Rightarrow>
             Some \<lparr>pa_subject = a0, pa_reply = Some a1, pa_size = parseSize a2, pa_szb = a2\<rparr>
         | _ \<Rightarrow> None)
      of
        None \<Rightarrow> (Some (PubParseError arg), st)
      | Some p \<Rightarrow>
          (let st1 = upd_client c (\<lambda>k. k\<lparr>pa := p\<rparr>) st in
           if pa_size p < 0 then (Some (PubBadSize arg), st1)
           else if Pedantic (opts (clients st1 c)) \<and> \<not> IsValidLiteralSubject (pa_subject p)
           then (None, sendErr c ''Invalid Subject'' st1)
           else (None, st1)))"

text \<open>
  \<open>processSub\<close>. The subscription object is allocated at the next free address; on a
  parse error the object built by the source is garbage and is not allocated here.
\<close>

definition new_sub :: "nat \<Rightarrow> string list \<Rightarrow> subscription option" where
  "new_sub c args =
     (case args of
        [a0, a1] \<Rightarrow>
          Some \<lparr>sub_client = c, sub_subject = a0, sub_queue = None, sub_sid = a1,
                sub_nm = 0, sub_max = 0\<rparr>
      | [a0, a1, a2] \<Rightarrow>
          Some \<lparr>sub_client = c, sub_subject = a0, sub_queue = Some a1, sub_sid = a2,
                sub_nm = 0, sub_max = 0\<rparr>
      | _ \<Rightarrow> None)"

definition processSub :: "nat \<Rightarrow> string \<Rightarrow> state \<Rightarrow> error option \<times> state" where
  "processSub c argo st =
     (case new_sub c (splitArg argo) of
        None \<Rightarrow> (Some (SubParseError argo), st)
      | Some sub \<Rightarrow>
          (let r = nsubs st;
               st1 = st\<lparr>subscriptions := (subscriptions st)(r := sub), nsubs := Suc r\<rparr>;
               st2 = lock c st1;
               st3 = upd_client c (\<lambda>k. k\<lparr>subs := hm_Set (sub_sid sub) r (subs k)\<rparr>) st2;
               ins = (if srv (clients st3 c)
                      then sl_Insert (sub_subject sub) (sub_queue sub) r (sl st3)
                      else Some (sl st3));
               st4 = (case ins of None \<Rightarrow> st3 | Some es \<Rightarrow> st3\<lparr>sl := es\<rparr>);
               st5 = unlock c st4
           in if ins = None then (None, sendErr c ''Invalid Subject'' st5)
              else if Verbose (opts (clients st5 c)) then (None, sendOK c st5)
              else (None, st5)))"

definition unsubscribe :: "nat \<Rightarrow> nat \<Rightarrow> state \<Rightarrow> state" where
  "unsubscribe c sub st =
     (let st1 = lock c st;
          s = subscriptions st1 sub
      in if 0 < sub_max s \<and> sub_nm s \<le> sub_max s then unlock c st1
         else
           let st2 = upd_client c (\<lambda>k. k\<lparr>subs := hm_Remove (sub_sid s) (subs k)\<rparr>) st1;
               st3 = (if srv (clients st2 c)
                      then st2\<lparr>sl := sl_Remove (sub_subject s) sub (sl st2)\<rparr> else st2)
           in unlock c st3)"

text \<open>
  \<open>processUnsub\<close>: \<open>unsub_args\<close> is its \<open>switch len(args)\<close>, which yields the sid and
  \<open>max\<close> (\<open>-1\<close> when no second field is given).
\<close>

definition unsub_args :: "string \<Rightarrow> (string \<times> int) option" where
  "unsub_args arg =
     (case splitArg arg of
        [a0] \<Rightarrow> Some (a0, - 1)
      | [a0, a1] \<Rightarrow> Some (a0, parseSize a1)
      | _ \<Rightarrow> None)"

definition processUnsub :: "nat \<Rightarrow> string \<Rightarrow> state \<Rightarrow> error option \<times> state" where
  "processUnsub c arg st =
     (case unsub_args arg of
        None \<Rightarrow> (Some (UnsubParseError arg), st)
      | Some (sid, max_arg) \<Rightarrow>
          (let st1 =
                 (case hm_Get (subs (clients st c)) sid of
                    None \<Rightarrow> st
                  | Some sub \<Rightarrow>
                      unsubscribe c sub
                        (if 0 < max_arg then upd_sub sub (\<lambda>s. s\<lparr>sub_max := max_arg\<rparr>) st
                         else st))
           in if Verbose (opts (clients st1 c)) then (None, sendOK c st1) else (None, st1)))"

definition msgHeader :: "nat \<Rightarrow> string \<Rightarrow> nat \<Rightarrow> state \<Rightarrow> string" where
  "msgHeader c mh sub st =
     mh @ sub_sid (subscriptions st sub) @ '' '' @
     (case pa_reply (pa (clients st c)) of None \<Rightarrow> [] | Some rp \<Rightarrow> rp @ '' '') @
     pa_szb (pa (clients st c)) @ CR_LF"

definition clearAuthTimer :: "nat \<Rightarrow> state \<Rightarrow> state" where
  "clearAuthTimer c st =
     (if \<not> atmr (clients st c) then st else upd_client c (\<lambda>k. k\<lparr>atmr := False\<rparr>) st)"

definition clearPingTimer :: "nat \<Rightarrow> state \<Rightarrow> state" where
  "clearPingTimer c st =
     (if \<not> ptmr (clients st c) then st else upd_client c (\<lambda>k. k\<lparr>ptmr := False\<rparr>) st)"

definition setPingTimer :: "nat \<Rightarrow> state \<Rightarrow> state" where
  "setPingTimer c st =
     (if \<not> srv (clients st c) then st else upd_client c (\<lambda>k. k\<lparr>ptmr := True\<rparr>) st)"

definition clearConnection :: "nat \<Rightarrow> state \<Rightarrow> state" where
  "clearConnection c st =
     (if conn (clients st c) = None then st
      else upd_client c (\<lambda>k. k\<lparr>conn := None\<rparr>) (snd (client_Flush c st)))"

definition closeConnection :: "nat \<Rightarrow> state \<Rightarrow> state" where
  "closeConnection c st =
     (if conn (clients st c) = None then st
      else
        let st1 = lock c st;
            st2 = clearAuthTimer c st1;
            st3 = clearPingTimer c st2;
            st4 = clearConnection c st3;
            all_subs = hm_All (subs (clients st4 c));
            st5 = unlock c st4
        in if srv (clients st5 c)
           then fold (\<lambda>sub s. s\<lparr>sl := sl_Remove (sub_subject (subscriptions s sub)) sub (sl s)\<rparr>)
                  all_subs (removeClient c st5)
           else st5)"

text \<open>
  The label \<open>writeErr\<close> of \<open>deliverMsg\<close>: clear the deadline if this call armed it,
  unlock the target, and close the target on a timeout.
\<close>

definition writeErr :: "nat \<Rightarrow> bool \<Rightarrow> wres \<Rightarrow> state \<Rightarrow> state" where
  "writeErr target deadlineSet err st =
     (let st1 = (if deadlineSet then SetWriteDeadline target False st else st);
          st2 = unlock target st1
      in if err = WTimeout then closeConnection target st2 else st2)"

text \<open>
  The three writes of \<open>deliverMsg\<close> (header, payload, \<open>CR_LF\<close>), up to the first
  error.
\<close>

definition write_msg :: "nat \<Rightarrow> nat \<Rightarrow> string \<Rightarrow> string \<Rightarrow> state \<Rightarrow> wres \<times> state" where
  "write_msg target sub mh msg st =
     (let (err1, st1) = client_Write target (Some sub) mh st in
      if err1 \<noteq> WOk then (err1, st1)
      else
        let (err2, st2) = client_Write target None msg st1 in
        if err2 \<noteq> WOk then (err2, st2)
        else client_Write target None CR_LF st2)"

text \<open>
  \<open>over_limit st sub\<close> is the test \<open>sub.max > 0 && sub.nm > sub.max\<close> of \<open>deliverMsg\<close>,
  read before \<open>sub.nm++\<close>.
\<close>

definition over_limit :: "state \<Rightarrow> nat \<Rightarrow> bool" where
  "over_limit st sub =
     (0 < sub_max (subscriptions st sub) \<and>
      sub_max (subscriptions st sub) < wrap_int64 (sub_nm (subscriptions st sub) + 1))"

text \<open>
  \<open>deliverMsg\<close>; \<open>c\<close> is the publishing session, \<open>target\<close> the owner of the
  subscription. \<open>c.srv\<close> is dereferenced without a check: the result is \<open>None\<close> when
  that panics.
\<close>

definition deliverMsg :: "nat \<Rightarrow> nat \<Rightarrow> string \<Rightarrow> string \<Rightarrow> state \<Rightarrow> state option" where
  "deliverMsg c sub mh msg st =
     (let target = sub_client (subscriptions st sub) in
      if conn (clients st target) = None then Some st
      else
        let st1 = upd_sub sub (\<lambda>s. s\<lparr>sub_nm := wrap_int64 (sub_nm s + 1)\<rparr>) (lock target st) in
        if 0 < sub_max (subscriptions st1 sub) \<and>
           sub_max (subscriptions st1 sub) < sub_nm (subscriptions st1 sub)
        then Some (unsubscribe target sub (unlock target st1))
        else
          let st2 = upd_client target
                      (\<lambda>k. k\<lparr>outMsgs := wrap_int64 (outMsgs k + 1),
                             outBytes := wrap_int64 (outBytes k + int (length msg))\<rparr>) st1
          in
          if \<not> srv (clients st2 c) then None
          else
            let st3 = st2\<lparr>srv_outMsgs := wrap_int64 (srv_outMsgs st2 + 1),
                          srv_outBytes := wrap_int64 (srv_outBytes st2 + int (length msg))\<rparr>;
                deadlineSet =
                  (avail (bw (clients st3 target)) < length mh + length msg + length CR_LF);
                st4 = (if deadlineSet then SetWriteDeadline target True st3 else st3);
                (err, st5) = write_msg target sub mh msg st4
            in
            if err \<noteq> WOk then Some (writeErr target deadlineSet err st5)
            else
              let st6 = (if deadlineSet then SetWriteDeadline target False st5 else st5);
                  st7 = unlock target st6
              in Some (upd_client c (\<lambda>k. k\<lparr>pcd := insert target (pcd k)\<rparr>) st7))"

text \<open>
  \<open>processMsg\<close>. The first loop delivers to the plain subscriptions of the match
  result and collects the queue subscriptions in \<open>qmap\<close>, an association list from
  queue name to members. Go leaves the iteration order of a map open, and
  \<open>rand.Int()\<close> is a random source: the loop over \<open>qmap\<close> takes its order from the
  choices \<open>ord\<close> and the successive values of \<open>rand.Int()\<close> from \<open>rnd\<close>.
\<close>

definition qmap_append :: "string \<Rightarrow> nat \<Rightarrow> (string \<times> nat list) list \<Rightarrow> (string \<times> nat list) list" where
  "qmap_append qname sub qmap =
     AList.update qname
       ((case map_of qmap qname of None \<Rightarrow> [] | Some qsubs \<Rightarrow> qsubs) @ [sub]) qmap"

fun msg_loop ::
  "nat \<Rightarrow> string \<Rightarrow> string \<Rightarrow> nat list \<Rightarrow> (string \<times> nat list) list \<Rightarrow> state \<Rightarrow>
   ((string \<times> nat list) list \<times> state) option" where
  "msg_loop c msgh msg [] qmap st = Some (qmap, st)"
| "msg_loop c msgh msg (sub # r) qmap st =
     (case sub_queue (subscriptions st sub) of
        Some qname \<Rightarrow> msg_loop c msgh msg r (qmap_append qname sub qmap) st
      | None \<Rightarrow>
          (case deliverMsg c sub (msgHeader c msgh sub st) msg st of
             None \<Rightarrow> None
           | Some st' \<Rightarrow> msg_loop c msgh msg r qmap st'))"

fun pick_order :: "nat list \<Rightarrow> 'a list \<Rightarrow> 'a list" where
  "pick_order [] xs = xs"
| "pick_order (k # ks) xs =
     (if xs = [] then []
      else let i = k mod length xs
           in xs ! i # pick_order ks (take i xs @ drop (Suc i) xs))"

fun queue_loop ::
  "nat \<Rightarrow> string \<Rightarrow> string \<Rightarrow> (string \<times> nat list) list \<Rightarrow> nat list \<Rightarrow> state \<Rightarrow> state option" where
  "queue_loop c msgh msg [] rnd st = Some st"
| "queue_loop c msgh msg ((qname, qsubs) # rest) rnd st =
     (if qsubs = [] then None
      else
        let index = (case rnd of [] \<Rightarrow> 0 | x # _ \<Rightarrow> x) mod length qsubs;
            sub = qsubs ! index
        in case deliverMsg c sub (msgHeader c msgh sub st) msg st of
             None \<Rightarrow> None
           | Some st' \<Rightarrow> queue_loop c msgh msg rest (tl rnd) st')"

definition processMsg :: "nat \<Rightarrow> string \<Rightarrow> nat list \<Rightarrow> nat list \<Rightarrow> state \<Rightarrow> state option" where
  "processMsg c msg ord rnd st =
     (let st1 = upd_client c
                  (\<lambda>k. k\<lparr>inMsgs := wrap_int64 (inMsgs k + 1),
                         inBytes := wrap_int64 (inBytes k + int (length msg))\<rparr>) st;
          st2 = (if srv (clients st1 c)
                 then st1\<lparr>srv_inMsgs := wrap_int64 (srv_inMsgs st1 + 1),
                          srv_inBytes := wrap_int64 (srv_inBytes st1 + int (length msg))\<rparr>
                 else st1)
      in
      if \<not> srv (clients st2 c) then Some st2
      else
        let st3 = (if Verbose (opts (clients st2 c)) then sendOK c st2 else st2);
            r = sl_Match (pa_subject (pa (clients st3 c))) (sl st3)
        in
        if r = [] then Some st3
        else
          let msgh = ''MSG '' @ pa_subject (pa (clients st3 c)) @ '' '' in
          case msg_loop c msgh msg r [] st3 of
            None \<Rightarrow> None
          | Some (qmap, st4) \<Rightarrow> queue_loop c msgh msg (pick_order ord qmap) rnd st4)"

text \<open>
  \<open>processPingTimer\<close>. The type assertion \<open>c.conn.(*net.TCPConn)\<close> fails on a nil
  connection too. \<open>c.srv.opts\<close> is read without a check: the result is \<open>None\<close> when
  that panics.
\<close>

definition processPingTimer :: "nat \<Rightarrow> state \<Rightarrow> state option" where
  "processPingTimer c st =
     (let st1 = upd_client c (\<lambda>k. k\<lparr>ptmr := False\<rparr>) (lock c st) in
      if \<not> (case conn (clients st1 c) of None \<Rightarrow> False | Some n \<Rightarrow> tcp n)
      then Some (unlock c st1)
      else
        let st2 = upd_client c (\<lambda>k. k\<lparr>pout := wrap_int (pout k + 1)\<rparr>) st1 in
        if \<not> srv (clients st2 c) then None
        else if MaxPingsOut st2 < pout (clients st2 c)
        then
          let st3 = snd (client_Write c None (err_line ''Stale Connection'') st2);
              st4 = snd (client_Flush c st3)
          in Some (unlock c (clearConnection c st4))
        else
          let st3 = snd (client_Write c None (''PING'' @ CR_LF) st2);
              (err, st4) = client_Flush c st3
          in if err \<noteq> WOk then Some (unlock c (clearConnection c st4))
             else Some (unlock c (setPingTimer c st4)))"


text \<open>\<open>ping_fires k c\<close>: the ping timer of session \<open>c\<close> fires \<open>k\<close> times in a row.\<close>

fun ping_fires :: "nat \<Rightarrow> nat \<Rightarrow> state \<Rightarrow> state option" where
  "ping_fires 0 c st = Some st"
| "ping_fires (Suc k) c st =
     (case processPingTimer c st of None \<Rightarrow> None | Some st' \<Rightarrow> ping_fires k c st')"

text \<open>
  \<open>writer_ok w\<close>: the writer accepts its next write. \<open>first_err q\<close>: the error of the
  first of the three writes of a delivery that fails under the results \<open>q\<close>
  (\<open>WOk\<close> when none fails).
\<close>

definition writer_ok :: "bufw \<Rightarrow> bool" where
  "writer_ok w = (case wq w of [] \<Rightarrow> True | r # _ \<Rightarrow> r = WOk)"

definition first_err :: "wres list \<Rightarrow> wres" where
  "first_err q = (case filter (\<lambda>r. r \<noteq> WOk) (take 3 q) of [] \<Rightarrow> WOk | e # _ \<Rightarrow> e)"

section \<open>Sequences of operations\<close>

text \<open>
  The operations a session receives from its parser and its read loop. A \<open>PUB\<close> is
  \<open>processPub\<close> on the argument bytes, then \<open>processMsg\<close> on the payload; \<open>Environ\<close>
  is the environment changing what the writer of a session will meet. When an
  operation returns an error, \<open>readLoop\<close> sends \<open>-ERR 'Parser Error'\<close> and closes the
  connection.
\<close>

datatype event =
  Sub nat string
| Unsub nat string
| Pub nat string string "nat list" "nat list"
| Close nat
| Environ nat "wres list" nat

definition parse_failed :: "nat \<Rightarrow> state \<Rightarrow> state" where
  "parse_failed c st = closeConnection c (sendErr c ''Parser Error'' st)"

fun step :: "event \<Rightarrow> state \<Rightarrow> state option" where
  "step (Sub c arg) st =
     (case processSub c arg st of
        (None, st') \<Rightarrow> Some st' | (Some e, st') \<Rightarrow> Some (parse_failed c st'))"
| "step (Unsub c arg) st =
     (case processUnsub c arg st of
        (None, st') \<Rightarrow> Some st' | (Some e, st') \<Rightarrow> Some (parse_failed c st'))"
| "step (Pub c arg msg ord rnd) st =
     (case processPub c arg st of
        (None, st') \<Rightarrow> processMsg c msg ord rnd st'
      | (Some e, st') \<Rightarrow> Some (parse_failed c st'))"
| "step (Close c) st = Some (closeConnection c st)"
| "step (Environ c q a) st = Some (upd_client c (\<lambda>k. k\<lparr>bw := (bw k)\<lparr>wq := q, avail := a\<rparr>\<rparr>) st)"

fun run :: "event list \<Rightarrow> state \<Rightarrow> state option" where
  "run [] st = Some st"
| "run (e # es) st = (case step e st of None \<Rightarrow> None | Some st' \<Rightarrow> run es st')"

text \<open>
  A state before any subscription exists: no subscription object, an empty Index, empty
  sid-maps, nothing written yet.
\<close>

definition initial :: "state \<Rightarrow> bool" where
  "initial st =
     (nsubs st = 0 \<and> sl st = [] \<and>
      (\<forall>c. subs (clients st c) = [] \<and> out (bw (clients st c)) = []))"

text \<open>
  Observations on a state: the number of \<open>MSG\<close> headers written into the owner's writer
  for a subscription, and whether a subscription is registered in the Index and in its
  owner's sid-map.
\<close>

definition delivered :: "state \<Rightarrow> nat \<Rightarrow> nat" where
  "delivered st r =
     length (filter (\<lambda>e. fst e = Some r)
       (out (bw (clients st (sub_client (subscriptions st r))))))"

definition in_index :: "state \<Rightarrow> nat \<Rightarrow> bool" where
  "in_index st r = (r \<in> set (map (\<lambda>e. snd (snd e)) (sl st)))"

definition in_sidmap :: "state \<Rightarrow> nat \<Rightarrow> bool" where
  "in_sidmap st r = (r \<in> set (hm_All (subs (clients st (sub_client (subscriptions st r))))))"

text \<open>A concrete server with open, attached sessions, for the examples.\<close>

definition client0 :: client where
  "client0 =
     \<lparr>mu = False, cid = 0, opts = \<lparr>Verbose = False, Pedantic = False\<rparr>,
      conn = Some \<lparr>tcp = True, wdeadline = False\<rparr>,
      bw = \<lparr>out = [], wq = [], avail = defaultBufSize\<rparr>,
      srv = True, subs = [], pcd = {}, atmr = False, ptmr = True, pout = 0,
      pa = \<lparr>pa_subject = [], pa_reply = None, pa_size = 0, pa_szb = []\<rparr>,
      inMsgs = 0, inBytes = 0, outMsgs = 0, outBytes = 0\<rparr>"

definition state0 :: state where
  "state0 =
     \<lparr>clients = (\<lambda>i. client0\<lparr>cid := i\<rparr>),
      subscriptions = (\<lambda>i. \<lparr>sub_client = 0, sub_subject = [], sub_queue = None,
                             sub_sid = [], sub_nm = 0, sub_max = 0\<rparr>),
      nsubs = 0, sl = [], srv_clients = {0, 1, 2},
      srv_inMsgs = 0, srv_inBytes = 0, srv_outMsgs = 0, srv_outBytes = 0,
      MaxPingsOut = 2\<rparr>"

definition pedantic0 :: state where
  "pedantic0 = upd_client 0 (\<lambda>k. k\<lparr>opts := \<lparr>Verbose = False, Pedantic = True\<rparr>\<rparr>) state0"

text \<open>\<open>tcp_open st c\<close>: the connection of session \<open>c\<close> is an open \<open>*net.TCPConn\<close>.\<close>

definition tcp_open :: "state \<Rightarrow> nat \<Rightarrow> bool" where
  "tcp_open st c = (case conn (clients st c) of None \<Rightarrow> False | Some n \<Rightarrow> tcp n)"

text \<open>
  Two observations used in the proofs. \<open>tagcount st c r\<close> counts the \<open>MSG\<close> headers
  written into the writer of session \<open>c\<close> for subscription \<open>r\<close>; \<open>remove_all h rs\<close>
  is the effect on the Index of the loop of \<open>closeConnection\<close> over the subscriptions
  \<open>rs\<close>, with \<open>h\<close> the heap of subscriptions.
\<close>

definition tagcount :: "state \<Rightarrow> nat \<Rightarrow> nat \<Rightarrow> nat" where
  "tagcount st c r = length (filter (\<lambda>e. fst e = Some r) (out (bw (clients st c))))"

definition remove_all :: "(nat \<Rightarrow> subscription) \<Rightarrow> nat list \<Rightarrow> sl_entry list \<Rightarrow> sl_entry list" where
  "remove_all h rs es = fold (\<lambda>sub es'. sl_Remove (sub_subject (h sub)) sub es') rs es"

text \<open>The three writes of \<open>write_msg\<close> as a function on the writer alone.\<close>

definition write3 :: "nat \<Rightarrow> string \<Rightarrow> string \<Rightarrow> bufw \<Rightarrow> wres \<times> bufw" where
  "write3 sub mh msg w =
     (let (err1, w1) = bw_Write (Some sub) mh w in
      if err1 \<noteq> WOk then (err1, w1)
      else
        let (err2, w2) = bw_Write None msg w1 in
        if err2 \<noteq> WOk then (err2, w2)
        else bw_Write None CR_LF w2)"

text \<open>
  The state of \<open>deliverMsg\<close> when its writes start: the target is locked, the delivery
  is counted in \<open>sub.nm\<close> and in the statistics, and the write deadline is armed when
  the writer is short of room.
\<close>

definition deliver_pre :: "nat \<Rightarrow> string \<Rightarrow> string \<Rightarrow> state \<Rightarrow> state" where
  "deliver_pre sub mh msg st =
     (let target = sub_client (subscriptions st sub);
          st1 = upd_sub sub (\<lambda>s. s\<lparr>sub_nm := wrap_int64 (sub_nm s + 1)\<rparr>) (lock target st);
          st2 = upd_client target
                  (\<lambda>k. k\<lparr>outMsgs := wrap_int64 (outMsgs k + 1),
                         outBytes := wrap_int64 (outBytes k + int (length msg))\<rparr>) st1;
          st3 = st2\<lparr>srv_outMsgs := wrap_int64 (srv_outMsgs st2 + 1),
                    srv_outBytes := wrap_int64 (srv_outBytes st2 + int (length msg))\<rparr>
      in if avail (bw (clients st3 target)) < length mh + length msg + length CR_LF
         then SetWriteDeadline target True st3 else st3)"

section \<open>Invariants of the reachable states\<close>

text \<open>\<open>refs es\<close>: the subscriptions that have an entry in the Index \<open>es\<close>.\<close>

definition refs :: "sl_entry list \<Rightarrow> nat set" where
  "refs es = set (map (\<lambda>e. snd (snd e)) es)"

text \<open>
  Well-formedness: the keys of every sid-map are distinct; an entry of a sid-map leads
  to an allocated subscription of that session under that sid; an entry of the Index
  leads to an allocated subscription with the entry's subject and queue, the subject
  is valid and the owner is attached to the server; no subscription has two entries in
  the Index; and a \<open>MSG\<close> header in a writer is for an allocated subscription of that
  session.
\<close>

definition wf_state :: "state \<Rightarrow> bool" where
  "wf_state st =
     ((\<forall>c. distinct (map fst (subs (clients st c)))) \<and>
      (\<forall>c sid r. hm_Get (subs (clients st c)) sid = Some r \<longrightarrow>
         r < nsubs st \<and> sub_client (subscriptions st r) = c \<and>
         sub_sid (subscriptions st r) = sid) \<and>
      (\<forall>e \<in> set (sl st).
         snd (snd e) < nsubs st \<and>
         sub_subject (subscriptions st (snd (snd e))) = fst e \<and>
         sub_queue (subscriptions st (snd (snd e))) = fst (snd e) \<and>
         valid_subject (fst e) \<and>
         srv (clients st (sub_client (subscriptions st (snd (snd e)))))) \<and>
      distinct (map (\<lambda>e. snd (snd e)) (sl st)) \<and>
      (\<forall>c r. 0 < tagcount st c r \<longrightarrow>
         r < nsubs st \<and> sub_client (subscriptions st r) = c))"

text \<open>
  The delivery counts: no more \<open>MSG\<close> headers were written for a subscription than
  \<open>sub.nm\<close> counts, and a subscription with a limit that is still registered has not
  passed it.
\<close>

definition limits_ok :: "state \<Rightarrow> bool" where
  "limits_ok st =
     (\<forall>r < nsubs st.
        int (delivered st r) \<le> sub_nm (subscriptions st r) \<and>
        (0 < sub_max (subscriptions st r) \<and> (in_index st r \<or> in_sidmap st r) \<longrightarrow>
           sub_nm (subscriptions st r) \<le> sub_max (subscriptions st r)))"

section \<open>Argument splitting and sizes\<close>

lemma split_on_nonempty: "split_on P xs \<noteq> []"
  by (induction xs) (auto split: list.splits)

lemma split_on_snoc:
  "split_on P (xs @ [x]) =
     (if P x then split_on P xs @ [[]]
      else butlast (split_on P xs) @ [last (split_on P xs) @ [x]])"
proof (induction xs)
  case Nil
  then show ?case by simp
next
  case (Cons y ys)
  obtain w ws where ys: "split_on P ys = w # ws"
    using split_on_nonempty [of P ys] by (cases "split_on P ys") auto
  obtain w' ws' where ysx: "split_on P (ys @ [x]) = w' # ws'"
    using split_on_nonempty [of P "ys @ [x]"] by (cases "split_on P (ys @ [x])") auto
  show ?case
    using Cons ys ysx by (cases "ws = []") (auto split: if_splits)
qed

lemma fold_split_inv:
  assumes "k \<le> length arg"
  shows "\<exists>ws w. split_on is_space (take k arg) = ws @ [w] \<and>
           fold (splitArg_step arg) [0..<k] ([], - 1) =
             (filter (\<lambda>w. w \<noteq> []) ws, if w = [] then - 1 else int (k - length w)) \<and>
           length w \<le> k \<and> w = slice arg (k - length w) k"
  using assms
proof (induction k)
  case 0
  then show ?case by (simp add: slice_def)
next
  case (Suc k)
  then have k: "k < length arg" by simp
  from Suc obtain ws w where
    sp: "split_on is_space (take k arg) = ws @ [w]" and
    fd: "fold (splitArg_step arg) [0..<k] ([], - 1) =
             (filter (\<lambda>w. w \<noteq> []) ws, if w = [] then - 1 else int (k - length w))" and
    len: "length w \<le> k" and w: "w = slice arg (k - length w) k"
    by auto
  have tk: "take (Suc k) arg = take k arg @ [arg ! k]"
    using k by (simp add: take_Suc_conv_app_nth)
  show ?case
  proof (cases "is_space (arg ! k)")
    case True
    have "split_on is_space (take (Suc k) arg) = (ws @ [w]) @ [[]]"
      using True sp by (simp add: tk split_on_snoc)
    moreover have "fold (splitArg_step arg) [0..<Suc k] ([], - 1) =
        (filter (\<lambda>w. w \<noteq> []) (ws @ [w]), - 1)"
    proof -
      have "nat (int k - int (length w)) = k - length w" using len by arith
      then show ?thesis
        using True fd w len by (auto simp: splitArg_step_def)
    qed
    ultimately show ?thesis
      by (intro exI [of _ "ws @ [w]"] exI [of _ "[]"]) (simp add: slice_def)
  next
    case False
    define w' where "w' = w @ [arg ! k]"
    have l': "length w' = Suc (length w)" and ne: "w' \<noteq> []"
      by (simp_all add: w'_def)
    have s1: "split_on is_space (take (Suc k) arg) = ws @ [w']"
      using False sp by (simp add: tk split_on_snoc w'_def)
    have s2: "fold (splitArg_step arg) [0..<Suc k] ([], - 1) =
        (filter (\<lambda>w. w \<noteq> []) ws, int (Suc k - length w'))"
      using False fd len by (auto simp: splitArg_step_def l')
    have "slice arg (k - length w) (Suc k) = slice arg (k - length w) k @ [arg ! k]"
      using k len unfolding slice_def
      by (simp add: take_Suc_conv_app_nth Suc_diff_le)
    then have s3: "w' = slice arg (Suc k - length w') (Suc k)"
      using w by (simp add: w'_def)
    have s4: "length w' \<le> Suc k"
      using len by (simp add: l')
    show ?thesis
      using s1 s2 s3 s4 ne by (intro exI [of _ ws] exI [of _ w']) simp
  qed
qed

lemma splitArg_spec_fields: "splitArg arg = spec_fields arg"
proof -
  obtain ws w where
    sp: "split_on is_space arg = ws @ [w]" and
    fd: "fold (splitArg_step arg) [0..<length arg] ([], - 1) =
             (filter (\<lambda>w. w \<noteq> []) ws, if w = [] then - 1 else int (length arg - length w))" and
    len: "length w \<le> length arg" and w: "w = slice arg (length arg - length w) (length arg)"
    using fold_split_inv [of "length arg" arg] by auto
  have "drop (length arg - length w) arg = w"
    using w len by (simp add: slice_def)
  then show ?thesis
    using sp fd by (auto simp: splitArg_def spec_fields_def)
qed

subsection \<open>Machine integers and sizes\<close>

lemma wrap_bits_id:
  assumes "0 < n" "- (2 ^ (n - 1)) \<le> i" "i < 2 ^ (n - 1)"
  shows "wrap_bits n i = i"
proof -
  have p: "(2::int) ^ n = 2 * 2 ^ (n - 1)"
    using assms(1) by (cases n) simp_all
  have "(i + 2 ^ (n - 1)) mod 2 ^ n = i + 2 ^ (n - 1)"
    using assms(2,3) p by (intro mod_pos_pos_trivial) simp_all
  then show ?thesis by (simp add: wrap_bits_def)
qed

lemma wrap_int_id: "min_int \<le> i \<Longrightarrow> i \<le> max_int \<Longrightarrow> wrap_int i = i"
  unfolding wrap_int_def min_int_def max_int_def
  by (rule wrap_bits_id) (simp_all add: int_bits_def)

lemma wrap_int64_id: "- (2 ^ 63) \<le> i \<Longrightarrow> i < 2 ^ 63 \<Longrightarrow> wrap_int64 i = i"
  unfolding wrap_int64_def by (rule wrap_bits_id) simp_all

lemma spec_value_snoc: "spec_value (d @ [c]) = spec_value d * 10 + (int (of_char c) - 48)"
  by (simp add: spec_value_def)

lemma spec_value_nonneg: "list_all is_digit d \<Longrightarrow> 0 \<le> spec_value d"
  by (induction d rule: rev_induct) (auto simp: spec_value_snoc is_digit_def spec_value_def)

lemma foldl_wrap_fits:
  "list_all is_digit d \<Longrightarrow> spec_value d \<le> max_int \<Longrightarrow>
   foldl (\<lambda>n c. wrap_int (n * 10 + (int (of_char c) - 48))) 0 d = spec_value d"
proof (induction d rule: rev_induct)
  case Nil
  then show ?case by (simp add: spec_value_def)
next
  case (snoc x xs)
  have xs: "list_all is_digit xs" and "is_digit x"
    using snoc.prems(1) by simp_all
  then have dx: "0 \<le> int (of_char x) - 48"
    by (simp add: is_digit_def)
  have nn: "0 \<le> spec_value xs" by (rule spec_value_nonneg [OF xs])
  have le: "spec_value xs * 10 + (int (of_char x) - 48) \<le> max_int"
    using snoc.prems(2) by (simp add: spec_value_snoc)
  then have "spec_value xs \<le> max_int" using nn dx by linarith
  then have ih: "foldl (\<lambda>n c. wrap_int (n * 10 + (int (of_char c) - 48))) 0 xs = spec_value xs"
    by (rule snoc.IH [OF xs])
  have "min_int \<le> 0" by (simp add: min_int_def)
  then have "min_int \<le> spec_value xs * 10 + (int (of_char x) - 48)"
    using nn dx by linarith
  then have "wrap_int (spec_value xs * 10 + (int (of_char x) - 48)) =
             spec_value xs * 10 + (int (of_char x) - 48)"
    using le by (rule wrap_int_id)
  then show ?case by (simp add: ih spec_value_snoc)
qed

lemma parseSize_fits:
  "spec_nonneg_int d \<Longrightarrow> spec_value d \<le> max_int \<Longrightarrow> parseSize d = spec_value d"
  by (simp add: parseSize_def spec_nonneg_int_def foldl_wrap_fits)



section \<open>Basic facts about the writer and the protocol lines\<close>

lemmas ev = state0_def client0_def spec_pub_malformed_def spec_nonneg_int_def spec_fields_def
  is_space_def is_digit_def spec_value_def IsValidLiteralSubject_def tokens_def
  max_int_def min_int_def int_bits_def

lemma sendErr_eq:
  "sendErr c e st =
     st\<lparr>clients := (clients st)(c := (clients st c)
        \<lparr>bw := snd (bw_Write None (err_line e) (bw (clients st c))),
         pcd := insert c (pcd (clients st c)), mu := False\<rparr>)\<rparr>"
  by (simp add: sendErr_def lock_def unlock_def client_Write_def upd_client_def Let_def
      split: prod.splits)

lemma sendOK_eq:
  "sendOK c st =
     st\<lparr>clients := (clients st)(c := (clients st c)
        \<lparr>bw := snd (bw_Write None (''+OK'' @ CR_LF) (bw (clients st c))),
         pcd := insert c (pcd (clients st c)), mu := False\<rparr>)\<rparr>"
  by (simp add: sendOK_def lock_def unlock_def client_Write_def upd_client_def Let_def
      split: prod.splits)

lemma bw_Write_ok: "writer_ok w \<Longrightarrow> out (snd (bw_Write tag p w)) = out w @ [(tag, p)]"
  by (auto simp: writer_ok_def bw_Write_def split: list.splits)

section \<open>Parsing a \<open>PUB\<close>\<close>



text \<open>
  Claim C3. With the pedantic option set, a \<open>PUB\<close> that passes the field-count and
  size checks of \<open>processPub\<close> and whose subject is not a valid literal subject makes
  \<open>processPub\<close> write \<open>-ERR 'Invalid Subject'\<close> into the session's writer and return
  success: no connection is closed, the Index and the registry are untouched, and the
  publish goes on to \<open>processMsg\<close>. The two checks hold for every argument of two or
  three fields whose last field is a digit string that fits an \<open>int\<close>
  (\<open>parseSize_sign\<close>).
\<close>

theorem processPub_pedantic_soft:
  assumes ped: "Pedantic (opts (clients st c))"
    and cnt: "length (spec_fields arg) \<in> {2, 3}"
    and sz: "0 \<le> parseSize (last (spec_fields arg))"
    and inv: "\<not> IsValidLiteralSubject (hd (spec_fields arg))"
  shows "fst (processPub c arg st) = None \<and>
         bw (clients (snd (processPub c arg st)) c) =
           snd (bw_Write None (err_line ''Invalid Subject'') (bw (clients st c))) \<and>
         (writer_ok (bw (clients st c)) \<longrightarrow>
            out (bw (clients (snd (processPub c arg st)) c)) =
              out (bw (clients st c)) @ [(None, err_line ''Invalid Subject'')]) \<and>
         (\<forall>c'. conn (clients (snd (processPub c arg st)) c') = conn (clients st c')) \<and>
         sl (snd (processPub c arg st)) = sl st \<and>
         srv_clients (snd (processPub c arg st)) = srv_clients st \<and>
         step (Pub c arg msg ord rnd) st = processMsg c msg ord rnd (snd (processPub c arg st))"
  using assms
  unfolding processPub_def splitArg_spec_fields
  by (auto simp: Let_def upd_client_def sendErr_eq bw_Write_ok processPub_def
      splitArg_spec_fields split: list.splits)

theorem processPub_pedantic_soft_witness:
  "Pedantic (opts (clients pedantic0 0)) \<and>
   length (spec_fields ''foo..bar 5'') \<in> {2, 3} \<and>
   0 \<le> parseSize (last (spec_fields ''foo..bar 5'')) \<and>
   \<not> IsValidLiteralSubject (hd (spec_fields ''foo..bar 5'')) \<and>
   fst (processPub 0 ''foo..bar 5'' pedantic0) = None \<and>
   out (bw (clients (snd (processPub 0 ''foo..bar 5'' pedantic0)) 0)) =
     [(None, err_line ''Invalid Subject'')] \<and>
   conn (clients (snd (processPub 0 ''foo..bar 5'' pedantic0)) 0) =
     Some \<lparr>tcp = True, wdeadline = False\<rparr> \<and>
   step (Pub 0 ''foo..bar 5'' ''hello'' [] []) pedantic0 =
     processMsg 0 ''hello'' [] [] (snd (processPub 0 ''foo..bar 5'' pedantic0))"
proof -
  have h1: "Pedantic (opts (clients pedantic0 0))"
    by (simp add: pedantic0_def upd_client_def ev)
  have h2: "length (spec_fields ''foo..bar 5'') \<in> {2, 3}"
    by (simp add: ev)
  have "parseSize ''5'' = spec_value ''5''"
    by (rule parseSize_fits) (simp_all add: ev)
  then have h3: "0 \<le> parseSize (last (spec_fields ''foo..bar 5''))"
    by (simp add: ev)
  have h4: "\<not> IsValidLiteralSubject (hd (spec_fields ''foo..bar 5''))"
    by (simp add: ev)
  have w: "writer_ok (bw (clients pedantic0 0))"
    by (simp add: pedantic0_def upd_client_def writer_ok_def ev)
  have o: "out (bw (clients pedantic0 0)) = []"
    and k: "conn (clients pedantic0 0) = Some \<lparr>tcp = True, wdeadline = False\<rparr>"
    by (simp_all add: pedantic0_def upd_client_def ev)
  show ?thesis
    using processPub_pedantic_soft [OF h1 h2 h3 h4, of "''hello''" "[]" "[]"] h1 h2 h3 h4 w o k
    by (simp add: bw_Write_ok)
qed

section \<open>\<open>UNSUB\<close> of an unknown sid\<close>

text \<open>
  Claim C10. \<open>processUnsub\<close> with a sid that is not in the session's sid-map returns
  success and changes neither the sid-map, nor the Index, nor any subscription; it
  writes no error, and it writes \<open>+OK\<close> exactly when the verbose option is set.
\<close>

theorem processUnsub_unknown_sid:
  assumes "spec_fields arg = [sid] \<or> spec_fields arg = [sid, m]"
    and "hm_Get (subs (clients st c)) sid = None"
  shows "processUnsub c arg st = (None, if Verbose (opts (clients st c)) then sendOK c st else st) \<and>
         subs (clients (snd (processUnsub c arg st)) c) = subs (clients st c) \<and>
         sl (snd (processUnsub c arg st)) = sl st \<and>
         subscriptions (snd (processUnsub c arg st)) = subscriptions st \<and>
         bw (clients (snd (processUnsub c arg st)) c) =
           (if Verbose (opts (clients st c))
            then snd (bw_Write None (''+OK'' @ CR_LF) (bw (clients st c)))
            else bw (clients st c))"
  using assms
  by (auto simp: processUnsub_def unsub_args_def splitArg_spec_fields sendOK_eq)

theorem processUnsub_unknown_sid_witness:
  "spec_fields ''7'' = [''7''] \<and>
   hm_Get (subs (clients state0 0)) ''7'' = None \<and>
   processUnsub 0 ''7'' state0 = (None, state0)"
proof -
  have h1: "spec_fields ''7'' = [''7''] \<or> spec_fields ''7'' = [''7'', m]" for m
    by (simp add: ev)
  have h2: "hm_Get (subs (clients state0 0)) ''7'' = None"
    by (simp add: hm_Get_def ev)
  have v: "\<not> Verbose (opts (clients state0 0))"
    by (simp add: ev)
  show ?thesis
    using processUnsub_unknown_sid [OF h1 h2] h2 v by (simp add: ev)
qed

section \<open>\<open>PONG\<close> and the ping timer\<close>

lemma processPong_frame:
  "pout (clients (processPong c st) c) = wrap_int (pout (clients st c) - 1)"
  "conn (clients (processPong c st) c) = conn (clients st c)"
  "srv (clients (processPong c st) c) = srv (clients st c)"
  "bw (clients (processPong c st) c) = bw (clients st c)"
  "MaxPingsOut (processPong c st) = MaxPingsOut st"
  by (simp_all add: processPong_def lock_def unlock_def upd_client_def)

lemma pongs_frame:
  assumes "min_int \<le> pout (clients st c) - int n" "pout (clients st c) \<le> max_int"
  shows "pout (clients ((processPong c ^^ n) st) c) = pout (clients st c) - int n \<and>
   conn (clients ((processPong c ^^ n) st) c) = conn (clients st c) \<and>
   srv (clients ((processPong c ^^ n) st) c) = srv (clients st c) \<and>
   bw (clients ((processPong c ^^ n) st) c) = bw (clients st c) \<and>
   MaxPingsOut ((processPong c ^^ n) st) = MaxPingsOut st"
  using assms
proof (induction n)
  case 0
  then show ?case by simp
next
  case (Suc n)
  let ?s = "(processPong c ^^ n) st"
  have ih: "pout (clients ?s c) = pout (clients st c) - int n \<and>
   conn (clients ?s c) = conn (clients st c) \<and>
   srv (clients ?s c) = srv (clients st c) \<and>
   bw (clients ?s c) = bw (clients st c) \<and>
   MaxPingsOut ?s = MaxPingsOut st"
    using Suc.prems by (intro Suc.IH) simp_all
  have w: "wrap_int (pout (clients st c) - int n - 1) = pout (clients st c) - int n - 1"
    using Suc.prems by (intro wrap_int_id) simp_all
  have "pout (clients ((processPong c ^^ Suc n) st) c) = wrap_int (pout (clients ?s c) - 1)"
    by (simp add: processPong_frame)
  also have "\<dots> = wrap_int (pout (clients st c) - int n - 1)"
    using ih by simp
  also have "\<dots> = pout (clients st c) - int (Suc n)"
    using w by simp
  finally have "pout (clients ((processPong c ^^ Suc n) st) c) = pout (clients st c) - int (Suc n)" .
  then show ?case
    using ih by (simp add: processPong_frame)
qed

lemma bw_Write_nil: "wq w = [] \<Longrightarrow> bw_Write tag p w = (WOk, w\<lparr>out := out w @ [(tag, p)]\<rparr>)"
  by (simp add: bw_Write_def)

lemma bw_Flush_nil: "wq w = [] \<Longrightarrow> bw_Flush w = (WOk, w)"
  by (simp add: bw_Flush_def)

lemma processPingTimer_closed:
  "conn (clients st c) = None \<Longrightarrow>
   \<exists>s. processPingTimer c st = Some s \<and> conn (clients s c) = None"
  by (simp add: processPingTimer_def lock_def unlock_def upd_client_def Let_def)

lemma processPingTimer_open:
  assumes "tcp_open st c" "srv (clients st c)" "wq (bw (clients st c)) = []"
    and "min_int \<le> pout (clients st c)" "pout (clients st c) < max_int"
  shows "\<exists>s. processPingTimer c st = Some s \<and>
           (if MaxPingsOut st < pout (clients st c) + 1 then conn (clients s c) = None
            else tcp_open s c \<and> srv (clients s c) \<and> wq (bw (clients s c)) = [] \<and>
                 MaxPingsOut s = MaxPingsOut st \<and> pout (clients s c) = pout (clients st c) + 1)"
proof -
  have "wrap_int (pout (clients st c) + 1) = pout (clients st c) + 1"
    using assms(4,5) by (intro wrap_int_id) simp_all
  then show ?thesis
    using assms(1-3)
    by (auto simp: tcp_open_def processPingTimer_def lock_def unlock_def upd_client_def Let_def
        client_Write_def client_Flush_def bw_Write_nil bw_Flush_nil clearConnection_def
        setPingTimer_def split: option.splits)
qed

lemma ping_fires_closed:
  "conn (clients st c) = None \<Longrightarrow> \<exists>s. ping_fires k c st = Some s \<and> conn (clients s c) = None"
proof (induction k arbitrary: st)
  case 0
  then show ?case by simp
next
  case (Suc k)
  from processPingTimer_closed [OF Suc.prems] obtain s1 where
    "processPingTimer c st = Some s1" "conn (clients s1 c) = None" by blast
  with Suc.IH [of s1] show ?case by simp
qed

lemma ping_fires_open:
  assumes "tcp_open st c" "srv (clients st c)" "wq (bw (clients st c)) = []"
    and "pout (clients st c) \<le> MaxPingsOut st" "MaxPingsOut st < max_int"
    and "min_int \<le> pout (clients st c)"
  shows "\<exists>s. ping_fires k c st = Some s \<and>
           (conn (clients s c) = None \<longleftrightarrow> MaxPingsOut st - pout (clients st c) < int k)"
  using assms
proof (induction k arbitrary: st)
  case 0
  then show ?case by (auto simp: tcp_open_def split: option.splits)
next
  case (Suc k)
  have lt: "pout (clients st c) < max_int" using Suc.prems(4,5) by simp
  from processPingTimer_open [OF Suc.prems(1-3) Suc.prems(6) lt] obtain s1 where
    s1: "processPingTimer c st = Some s1" and
    c1: "if MaxPingsOut st < pout (clients st c) + 1 then conn (clients s1 c) = None
            else tcp_open s1 c \<and> srv (clients s1 c) \<and> wq (bw (clients s1 c)) = [] \<and>
                 MaxPingsOut s1 = MaxPingsOut st \<and> pout (clients s1 c) = pout (clients st c) + 1"
    by blast
  show ?case
  proof (cases "MaxPingsOut st < pout (clients st c) + 1")
    case True
    with c1 have "conn (clients s1 c) = None" by simp
    from ping_fires_closed [OF this, of k] s1 True show ?thesis by auto
  next
    case False
    with c1 have o: "tcp_open s1 c" "srv (clients s1 c)" "wq (bw (clients s1 c)) = []"
      and m: "MaxPingsOut s1 = MaxPingsOut st" and p: "pout (clients s1 c) = pout (clients st c) + 1"
      by simp_all
    have le: "pout (clients s1 c) \<le> MaxPingsOut s1" using False m p by simp
    have mx: "MaxPingsOut s1 < max_int" using Suc.prems(5) m by simp
    have mn: "min_int \<le> pout (clients s1 c)" using Suc.prems(6) p by simp
    from Suc.IH [OF o le mx mn] s1 m p show ?thesis by auto
  qed
qed

text \<open>
  Claim C9. \<open>processPong\<close> decrements the outstanding-ping counter with no lower
  bound at zero: after \<open>n\<close> \<open>PONG\<close>s the counter is smaller by exactly \<open>n\<close> and may be
  negative, as long as it stays within the range of Go's \<open>int\<close> (\<open>min_int\<close> is the
  only bound). For a session on an open TCP connection whose writes succeed, the
  \<open>k\<close>-th fire of the ping timer after these \<open>PONG\<close>s finds the connection stale exactly
  when \<open>k\<close> exceeds \<open>MaxPingsOut - pout + n\<close>: each surplus \<open>PONG\<close> defers the stale
  condition by one fire of the timer.
\<close>

theorem surplus_pongs_defer_stale:
  assumes "tcp_open st c" "srv (clients st c)" "wq (bw (clients st c)) = []"
    and "pout (clients st c) \<le> MaxPingsOut st" "MaxPingsOut st < max_int"
    and "min_int \<le> pout (clients st c) - int n"
  shows "pout (clients ((processPong c ^^ n) st) c) = pout (clients st c) - int n \<and>
         (\<exists>s. ping_fires k c ((processPong c ^^ n) st) = Some s \<and>
            (conn (clients s c) = None \<longleftrightarrow>
               MaxPingsOut st - pout (clients st c) + int n < int k))"
proof -
  let ?st = "(processPong c ^^ n) st"
  have up: "pout (clients st c) \<le> max_int" using assms(4,5) by simp
  note fr = pongs_frame [OF assms(6) up]
  have a: "tcp_open ?st c" "srv (clients ?st c)" "wq (bw (clients ?st c)) = []"
    and b: "pout (clients ?st c) = pout (clients st c) - int n" "MaxPingsOut ?st = MaxPingsOut st"
    using assms(1-3) fr by (simp_all add: tcp_open_def)
  have le: "pout (clients ?st c) \<le> MaxPingsOut ?st" using b assms(4) by simp
  have mx: "MaxPingsOut ?st < max_int" using b assms(5) by simp
  have mn: "min_int \<le> pout (clients ?st c)" using b assms(6) by simp
  from ping_fires_open [OF a le mx mn, of k] b show ?thesis by auto
qed

theorem surplus_pongs_defer_stale_witness:
  "tcp_open state0 0 \<and> srv (clients state0 0) \<and> wq (bw (clients state0 0)) = [] \<and>
   pout (clients state0 0) \<le> MaxPingsOut state0 \<and> MaxPingsOut state0 < max_int \<and>
   min_int \<le> pout (clients state0 0) - int 2 \<and>
   pout (clients ((processPong 0 ^^ 2) state0) 0) = - 2 \<and>
   (\<exists>s. ping_fires 3 0 state0 = Some s \<and> conn (clients s 0) = None) \<and>
   (\<exists>s. ping_fires 4 0 ((processPong 0 ^^ 2) state0) = Some s \<and> conn (clients s 0) \<noteq> None) \<and>
   (\<exists>s. ping_fires 5 0 ((processPong 0 ^^ 2) state0) = Some s \<and> conn (clients s 0) = None)"
proof -
  have h: "tcp_open state0 0" "srv (clients state0 0)" "wq (bw (clients state0 0)) = []"
    "pout (clients state0 0) \<le> MaxPingsOut state0" "MaxPingsOut state0 < max_int"
    by (simp_all add: tcp_open_def ev)
  have m2: "min_int \<le> pout (clients state0 0) - int 2"
    and m0: "min_int \<le> pout (clients state0 0) - int 0"
    by (simp_all add: ev)
  have v: "pout (clients state0 0) = 0" "MaxPingsOut state0 = 2"
    by (simp_all add: ev)
  show ?thesis
    using surplus_pongs_defer_stale [OF h m2, of 4] surplus_pongs_defer_stale [OF h m2, of 5]
      surplus_pongs_defer_stale [OF h m0, of 3] h m2 v
    by simp
qed

section \<open>Frame lemmas\<close>

lemma bw_Write_out:
  "out (snd (bw_Write tag p w)) = out w @ (if fst (bw_Write tag p w) = WOk then [(tag, p)] else [])"
  by (simp add: bw_Write_def split: list.splits)

lemma bw_Flush_out: "out (snd (bw_Flush w)) = out w"
  by (simp add: bw_Flush_def split: list.splits)

lemma tagcount_upd:
  "tagcount (upd_client c f st) c' r =
     (if c' = c then length (filter (\<lambda>e. fst e = Some r) (out (bw (f (clients st c)))))
      else tagcount st c' r)"
  by (simp add: tagcount_def upd_client_def)

lemma tagcount_state_upd [simp]:
  "tagcount (st\<lparr>sl := a\<rparr>) = tagcount st"
  "tagcount (st\<lparr>subscriptions := b\<rparr>) = tagcount st"
  "tagcount (st\<lparr>nsubs := n\<rparr>) = tagcount st"
  "tagcount (st\<lparr>srv_clients := d\<rparr>) = tagcount st"
  "tagcount (st\<lparr>srv_inMsgs := i\<rparr>) = tagcount st"
  "tagcount (st\<lparr>srv_inBytes := i\<rparr>) = tagcount st"
  "tagcount (st\<lparr>srv_outMsgs := i\<rparr>) = tagcount st"
  "tagcount (st\<lparr>srv_outBytes := i\<rparr>) = tagcount st"
  by (simp_all add: tagcount_def fun_eq_iff)

lemma upd_client_clients:
  "clients (upd_client c f st) c' = (if c' = c then f (clients st c) else clients st c')"
  by (simp add: upd_client_def)

lemma upd_client_other [simp]:
  "c' \<noteq> c \<Longrightarrow> clients (upd_client c f st) c' = clients st c'"
  "clients (upd_client c f st) c = f (clients st c)"
  by (simp_all add: upd_client_def)

lemma upd_client_proj [simp]:
  "nsubs (upd_client c f st) = nsubs st"
  "subscriptions (upd_client c f st) = subscriptions st"
  "sl (upd_client c f st) = sl st"
  "srv_clients (upd_client c f st) = srv_clients st"
  "MaxPingsOut (upd_client c f st) = MaxPingsOut st"
  "srv_inMsgs (upd_client c f st) = srv_inMsgs st"
  "srv_inBytes (upd_client c f st) = srv_inBytes st"
  "srv_outMsgs (upd_client c f st) = srv_outMsgs st"
  "srv_outBytes (upd_client c f st) = srv_outBytes st"
  by (simp_all add: upd_client_def)

text \<open>A field that the update leaves alone reads as before, for every session.\<close>

lemma upd_client_keep [simp]:
  "(\<And>k. subs (f k) = subs k) \<Longrightarrow> subs (clients (upd_client c f st) c') = subs (clients st c')"
  "(\<And>k. srv (f k) = srv k) \<Longrightarrow> srv (clients (upd_client c f st) c') = srv (clients st c')"
  "(\<And>k. opts (f k) = opts k) \<Longrightarrow> opts (clients (upd_client c f st) c') = opts (clients st c')"
  "(\<And>k. pa (f k) = pa k) \<Longrightarrow> pa (clients (upd_client c f st) c') = pa (clients st c')"
  "(\<And>k. conn (f k) = conn k) \<Longrightarrow> conn (clients (upd_client c f st) c') = conn (clients st c')"
  "(\<And>k. bw (f k) = bw k) \<Longrightarrow> bw (clients (upd_client c f st) c') = bw (clients st c')"
  by (simp_all add: upd_client_def)

lemma upd_client_keep_tagcount [simp]:
  "(\<And>k. bw (f k) = bw k) \<Longrightarrow> tagcount (upd_client c f st) c' r = tagcount st c' r"
  by (simp add: tagcount_def upd_client_def)

lemma upd_sub_proj [simp]:
  "clients (upd_sub r f st) = clients st"
  "nsubs (upd_sub r f st) = nsubs st"
  "subscriptions (upd_sub r f st) r' = (if r' = r then f (subscriptions st r) else subscriptions st r')"
  "sl (upd_sub r f st) = sl st"
  "srv_clients (upd_sub r f st) = srv_clients st"
  "MaxPingsOut (upd_sub r f st) = MaxPingsOut st"
  "srv_inMsgs (upd_sub r f st) = srv_inMsgs st"
  "srv_inBytes (upd_sub r f st) = srv_inBytes st"
  "srv_outMsgs (upd_sub r f st) = srv_outMsgs st"
  "srv_outBytes (upd_sub r f st) = srv_outBytes st"
  "tagcount (upd_sub r f st) c r' = tagcount st c r'"
  by (simp_all add: upd_sub_def tagcount_def)

lemma lock_frame [simp]:
  "clients (lock c st) c' = (clients st c')\<lparr>mu := (if c' = c then True else mu (clients st c'))\<rparr>"
  "nsubs (lock c st) = nsubs st"
  "subscriptions (lock c st) = subscriptions st"
  "sl (lock c st) = sl st"
  "srv_clients (lock c st) = srv_clients st"
  "MaxPingsOut (lock c st) = MaxPingsOut st"
  "srv_outMsgs (lock c st) = srv_outMsgs st"
  "srv_outBytes (lock c st) = srv_outBytes st"
  "tagcount (lock c st) c' r = tagcount st c' r"
  by (simp_all add: lock_def upd_client_def tagcount_def)

lemma unlock_frame [simp]:
  "clients (unlock c st) c' = (clients st c')\<lparr>mu := (if c' = c then False else mu (clients st c'))\<rparr>"
  "nsubs (unlock c st) = nsubs st"
  "subscriptions (unlock c st) = subscriptions st"
  "sl (unlock c st) = sl st"
  "srv_clients (unlock c st) = srv_clients st"
  "MaxPingsOut (unlock c st) = MaxPingsOut st"
  "srv_outMsgs (unlock c st) = srv_outMsgs st"
  "srv_outBytes (unlock c st) = srv_outBytes st"
  "tagcount (unlock c st) c' r = tagcount st c' r"
  by (simp_all add: unlock_def upd_client_def tagcount_def)

lemma SetWriteDeadline_frame [simp]:
  "nsubs (SetWriteDeadline c b st) = nsubs st"
  "subscriptions (SetWriteDeadline c b st) = subscriptions st"
  "sl (SetWriteDeadline c b st) = sl st"
  "srv_clients (SetWriteDeadline c b st) = srv_clients st"
  "MaxPingsOut (SetWriteDeadline c b st) = MaxPingsOut st"
  "srv_outMsgs (SetWriteDeadline c b st) = srv_outMsgs st"
  "srv_outBytes (SetWriteDeadline c b st) = srv_outBytes st"
  "subs (clients (SetWriteDeadline c b st) c') = subs (clients st c')"
  "srv (clients (SetWriteDeadline c b st) c') = srv (clients st c')"
  "opts (clients (SetWriteDeadline c b st) c') = opts (clients st c')"
  "pa (clients (SetWriteDeadline c b st) c') = pa (clients st c')"
  "bw (clients (SetWriteDeadline c b st) c') = bw (clients st c')"
  "mu (clients (SetWriteDeadline c b st) c') = mu (clients st c')"
  "pcd (clients (SetWriteDeadline c b st) c') = pcd (clients st c')"
  "tagcount (SetWriteDeadline c b st) c' r = tagcount st c' r"
  "(conn (clients (SetWriteDeadline c b st) c') = None) = (conn (clients st c') = None)"
  "c' \<noteq> c \<Longrightarrow> clients (SetWriteDeadline c b st) c' = clients st c'"
  by (simp_all add: SetWriteDeadline_def upd_client_def tagcount_def)

lemma SetWriteDeadline_conn:
  "conn (clients (SetWriteDeadline c b st) c') =
     (if c' = c then map_option (\<lambda>n. n\<lparr>wdeadline := b\<rparr>) (conn (clients st c))
      else conn (clients st c'))"
  by (simp add: SetWriteDeadline_def upd_client_def)

lemma sendOK_frame [simp]:
  "nsubs (sendOK c st) = nsubs st"
  "subscriptions (sendOK c st) = subscriptions st"
  "sl (sendOK c st) = sl st"
  "srv_clients (sendOK c st) = srv_clients st"
  "MaxPingsOut (sendOK c st) = MaxPingsOut st"
  "subs (clients (sendOK c st) c') = subs (clients st c')"
  "conn (clients (sendOK c st) c') = conn (clients st c')"
  "srv (clients (sendOK c st) c') = srv (clients st c')"
  "opts (clients (sendOK c st) c') = opts (clients st c')"
  "pa (clients (sendOK c st) c') = pa (clients st c')"
  "tagcount (sendOK c st) c' r = tagcount st c' r"
  by (simp_all add: sendOK_eq tagcount_def bw_Write_out)

lemma sendErr_frame [simp]:
  "nsubs (sendErr c e st) = nsubs st"
  "subscriptions (sendErr c e st) = subscriptions st"
  "sl (sendErr c e st) = sl st"
  "srv_clients (sendErr c e st) = srv_clients st"
  "MaxPingsOut (sendErr c e st) = MaxPingsOut st"
  "subs (clients (sendErr c e st) c') = subs (clients st c')"
  "conn (clients (sendErr c e st) c') = conn (clients st c')"
  "srv (clients (sendErr c e st) c') = srv (clients st c')"
  "opts (clients (sendErr c e st) c') = opts (clients st c')"
  "pa (clients (sendErr c e st) c') = pa (clients st c')"
  "tagcount (sendErr c e st) c' r = tagcount st c' r"
  by (simp_all add: sendErr_eq tagcount_def bw_Write_out)

lemma clearAuthTimer_frame [simp]:
  "nsubs (clearAuthTimer c st) = nsubs st"
  "subscriptions (clearAuthTimer c st) = subscriptions st"
  "MaxPingsOut (clearAuthTimer c st) = MaxPingsOut st"
  "sl (clearAuthTimer c st) = sl st"
  "srv_clients (clearAuthTimer c st) = srv_clients st"
  "tagcount (clearAuthTimer c st) c' r = tagcount st c' r"
  "clients (clearAuthTimer c st) c' =
     (clients st c')\<lparr>atmr := (if c' = c then False else atmr (clients st c'))\<rparr>"
  by (simp_all add: clearAuthTimer_def upd_client_def tagcount_def)

lemma clearPingTimer_frame [simp]:
  "nsubs (clearPingTimer c st) = nsubs st"
  "subscriptions (clearPingTimer c st) = subscriptions st"
  "MaxPingsOut (clearPingTimer c st) = MaxPingsOut st"
  "sl (clearPingTimer c st) = sl st"
  "srv_clients (clearPingTimer c st) = srv_clients st"
  "tagcount (clearPingTimer c st) c' r = tagcount st c' r"
  "clients (clearPingTimer c st) c' =
     (clients st c')\<lparr>ptmr := (if c' = c then False else ptmr (clients st c'))\<rparr>"
  by (simp_all add: clearPingTimer_def upd_client_def tagcount_def)

lemma clearConnection_frame [simp]:
  "nsubs (clearConnection c st) = nsubs st"
  "subscriptions (clearConnection c st) = subscriptions st"
  "MaxPingsOut (clearConnection c st) = MaxPingsOut st"
  "sl (clearConnection c st) = sl st"
  "srv_clients (clearConnection c st) = srv_clients st"
  "subs (clients (clearConnection c st) c') = subs (clients st c')"
  "srv (clients (clearConnection c st) c') = srv (clients st c')"
  "opts (clients (clearConnection c st) c') = opts (clients st c')"
  "pa (clients (clearConnection c st) c') = pa (clients st c')"
  "mu (clients (clearConnection c st) c') = mu (clients st c')"
  "atmr (clients (clearConnection c st) c') = atmr (clients st c')"
  "ptmr (clients (clearConnection c st) c') = ptmr (clients st c')"
  "tagcount (clearConnection c st) c' r = tagcount st c' r"
  "conn (clients (clearConnection c st) c') = (if c' = c then None else conn (clients st c'))"
  "c' \<noteq> c \<Longrightarrow> clients (clearConnection c st) c' = clients st c'"
  by (simp_all add: clearConnection_def client_Flush_def split_beta upd_client_def tagcount_def
      bw_Flush_out)

lemma fold_sl_Remove:
  "fold (\<lambda>sub s. s\<lparr>sl := sl_Remove (sub_subject (subscriptions s sub)) sub (sl s)\<rparr>) rs st =
     st\<lparr>sl := remove_all (subscriptions st) rs (sl st)\<rparr>"
  by (induction rs arbitrary: st) (simp_all add: remove_all_def)

lemma closeConnection_closed [simp]:
  "conn (clients st c) = None \<Longrightarrow> closeConnection c st = st"
  by (simp add: closeConnection_def)

lemma closeConnection_frame [simp]:
  "nsubs (closeConnection c st) = nsubs st"
  "subscriptions (closeConnection c st) = subscriptions st"
  "MaxPingsOut (closeConnection c st) = MaxPingsOut st"
  "subs (clients (closeConnection c st) c') = subs (clients st c')"
  "srv (clients (closeConnection c st) c') = srv (clients st c')"
  "opts (clients (closeConnection c st) c') = opts (clients st c')"
  "pa (clients (closeConnection c st) c') = pa (clients st c')"
  "tagcount (closeConnection c st) c' r = tagcount st c' r"
  "conn (clients (closeConnection c st) c') = (if c' = c then None else conn (clients st c'))"
  "sl (closeConnection c st) =
     (if conn (clients st c) \<noteq> None \<and> srv (clients st c)
      then remove_all (subscriptions st) (hm_All (subs (clients st c))) (sl st) else sl st)"
  "srv_clients (closeConnection c st) =
     (if conn (clients st c) \<noteq> None \<and> srv (clients st c)
      then srv_clients st - {c} else srv_clients st)"
  "c' \<noteq> c \<Longrightarrow> clients (closeConnection c st) c' = clients st c'"
  by (simp_all add: closeConnection_def Let_def fold_sl_Remove removeClient_def)

lemma closeConnection_timers:
  assumes "conn (clients st c) \<noteq> None"
  shows "\<not> atmr (clients (closeConnection c st) c) \<and>
         \<not> ptmr (clients (closeConnection c st) c) \<and>
         \<not> mu (clients (closeConnection c st) c)"
  by (simp add: assms closeConnection_def Let_def fold_sl_Remove removeClient_def)

lemma unsubscribe_frame [simp]:
  "nsubs (unsubscribe c r st) = nsubs st"
  "subscriptions (unsubscribe c r st) = subscriptions st"
  "MaxPingsOut (unsubscribe c r st) = MaxPingsOut st"
  "srv_clients (unsubscribe c r st) = srv_clients st"
  "conn (clients (unsubscribe c r st) c') = conn (clients st c')"
  "srv (clients (unsubscribe c r st) c') = srv (clients st c')"
  "opts (clients (unsubscribe c r st) c') = opts (clients st c')"
  "pa (clients (unsubscribe c r st) c') = pa (clients st c')"
  "bw (clients (unsubscribe c r st) c') = bw (clients st c')"
  "tagcount (unsubscribe c r st) c' r' = tagcount st c' r'"
  "\<not> mu (clients (unsubscribe c r st) c)"
  "c' \<noteq> c \<Longrightarrow> clients (unsubscribe c r st) c' = clients st c'"
  "subs (clients (unsubscribe c r st) c') =
     (if c' = c \<and> \<not> (0 < sub_max (subscriptions st r) \<and>
          sub_nm (subscriptions st r) \<le> sub_max (subscriptions st r))
      then hm_Remove (sub_sid (subscriptions st r)) (subs (clients st c))
      else subs (clients st c'))"
  "sl (unsubscribe c r st) =
     (if \<not> (0 < sub_max (subscriptions st r) \<and>
          sub_nm (subscriptions st r) \<le> sub_max (subscriptions st r)) \<and> srv (clients st c)
      then sl_Remove (sub_subject (subscriptions st r)) r (sl st) else sl st)"
  by (auto simp: unsubscribe_def Let_def upd_client_clients)

lemma write_msg_eq:
  "write_msg t sub mh msg st =
     (fst (write3 sub mh msg (bw (clients st t))),
      upd_client t (\<lambda>k. k\<lparr>bw := snd (write3 sub mh msg (bw (clients st t)))\<rparr>) st)"
  by (simp add: write_msg_def write3_def client_Write_def split_beta Let_def upd_client_def)

lemma write3_err: "fst (write3 sub mh msg w) = first_err (wq w)"
  by (cases "wq w" rule: list.exhaust; cases "tl (wq w)"; cases "tl (tl (wq w))")
     (auto simp: write3_def bw_Write_def first_err_def split_beta Let_def split: list.splits)

lemma write3_count:
  "length (filter (\<lambda>e. fst e = Some r) (out (snd (write3 sub mh msg w)))) =
     length (filter (\<lambda>e. fst e = Some r) (out w)) + (if r = sub \<and> writer_ok w then 1 else 0)"
  by (auto simp: write3_def bw_Write_def writer_ok_def split_beta Let_def split: list.splits)

lemma write3_ok:
  "first_err (wq w) = WOk \<Longrightarrow>
     out (snd (write3 sub mh msg w)) = out w @ [(Some sub, mh), (None, msg), (None, CR_LF)] \<and>
     avail (snd (write3 sub mh msg w)) = avail w"
  by (cases "wq w" rule: list.exhaust; cases "tl (wq w)"; cases "tl (tl (wq w))")
     (auto simp: write3_def bw_Write_def first_err_def split_beta Let_def split: list.splits if_splits)

section \<open>The cases of \<open>deliverMsg\<close>\<close>

lemma deliverMsg_closed:
  "conn (clients st (sub_client (subscriptions st sub))) = None \<Longrightarrow>
   deliverMsg c sub mh msg st = Some st"
  by (simp add: deliverMsg_def)

lemma deliverMsg_over:
  assumes "conn (clients st (sub_client (subscriptions st sub))) \<noteq> None" "over_limit st sub"
  shows "deliverMsg c sub mh msg st =
     Some (unsubscribe (sub_client (subscriptions st sub)) sub
       (unlock (sub_client (subscriptions st sub))
         (upd_sub sub (\<lambda>s. s\<lparr>sub_nm := wrap_int64 (sub_nm s + 1)\<rparr>)
           (lock (sub_client (subscriptions st sub)) st))))"
  using assms(2) by (simp add: assms(1) deliverMsg_def over_limit_def Let_def)

lemma deliverMsg_panic:
  assumes "conn (clients st (sub_client (subscriptions st sub))) \<noteq> None" "\<not> over_limit st sub"
    "\<not> srv (clients st c)"
  shows "deliverMsg c sub mh msg st = None"
  using assms(2,3) by (simp add: assms(1) deliverMsg_def over_limit_def Let_def split_beta)

lemma deliverMsg_cases:
  "deliverMsg c sub mh msg st =
     (let t = sub_client (subscriptions st sub) in
      if conn (clients st t) = None then Some st
      else if over_limit st sub
      then Some (unsubscribe t sub (unlock t
                   (upd_sub sub (\<lambda>s. s\<lparr>sub_nm := wrap_int64 (sub_nm s + 1)\<rparr>) (lock t st))))
      else if \<not> srv (clients st c) then None
      else
        let ds = (avail (bw (clients st t)) < length mh + length msg + length CR_LF);
            e = first_err (wq (bw (clients st t)));
            st5 = upd_client t (\<lambda>k. k\<lparr>bw := snd (write3 sub mh msg (bw (clients st t)))\<rparr>)
                    (deliver_pre sub mh msg st)
        in if e \<noteq> WOk then Some (writeErr t ds e st5)
           else Some (upd_client c (\<lambda>k. k\<lparr>pcd := insert t (pcd k)\<rparr>)
                   (unlock t (if ds then SetWriteDeadline t False st5 else st5))))"
  by (simp add: deliverMsg_def deliver_pre_def over_limit_def Let_def split_beta write_msg_eq
      write3_err)

lemma deliver_pre_frame [simp]:
  "nsubs (deliver_pre sub mh msg st) = nsubs st"
  "MaxPingsOut (deliver_pre sub mh msg st) = MaxPingsOut st"
  "sl (deliver_pre sub mh msg st) = sl st"
  "srv_clients (deliver_pre sub mh msg st) = srv_clients st"
  "subscriptions (deliver_pre sub mh msg st) r =
     (if r = sub
      then (subscriptions st sub)\<lparr>sub_nm := wrap_int64 (sub_nm (subscriptions st sub) + 1)\<rparr>
      else subscriptions st r)"
  "subs (clients (deliver_pre sub mh msg st) c') = subs (clients st c')"
  "srv (clients (deliver_pre sub mh msg st) c') = srv (clients st c')"
  "opts (clients (deliver_pre sub mh msg st) c') = opts (clients st c')"
  "pa (clients (deliver_pre sub mh msg st) c') = pa (clients st c')"
  "bw (clients (deliver_pre sub mh msg st) c') = bw (clients st c')"
  "tagcount (deliver_pre sub mh msg st) c' r = tagcount st c' r"
  "(conn (clients (deliver_pre sub mh msg st) c') = None) = (conn (clients st c') = None)"
  "c' \<noteq> sub_client (subscriptions st sub) \<Longrightarrow> clients (deliver_pre sub mh msg st) c' = clients st c'"
  by (simp_all add: deliver_pre_def Let_def tagcount_def)


lemma remove_all_cong:
  "(\<And>r. sub_subject (h r) = sub_subject (h' r)) \<Longrightarrow> remove_all h rs es = remove_all h' rs es"
  by (simp add: remove_all_def)

lemma writeErr_frame [simp]:
  "nsubs (writeErr t ds e st) = nsubs st"
  "subscriptions (writeErr t ds e st) = subscriptions st"
  "MaxPingsOut (writeErr t ds e st) = MaxPingsOut st"
  "subs (clients (writeErr t ds e st) c') = subs (clients st c')"
  "srv (clients (writeErr t ds e st) c') = srv (clients st c')"
  "opts (clients (writeErr t ds e st) c') = opts (clients st c')"
  "pa (clients (writeErr t ds e st) c') = pa (clients st c')"
  "tagcount (writeErr t ds e st) c' r = tagcount st c' r"
  "(conn (clients (writeErr t ds e st) c') = None) =
     (conn (clients st c') = None \<or> (e = WTimeout \<and> c' = t))"
  "sl (writeErr t ds e st) =
     (if e = WTimeout \<and> conn (clients st t) \<noteq> None \<and> srv (clients st t)
      then remove_all (subscriptions st) (hm_All (subs (clients st t))) (sl st) else sl st)"
  "srv_clients (writeErr t ds e st) =
     (if e = WTimeout \<and> conn (clients st t) \<noteq> None \<and> srv (clients st t)
      then srv_clients st - {t} else srv_clients st)"
  "c' \<noteq> t \<Longrightarrow> clients (writeErr t ds e st) c' = clients st c'"
  by (auto simp: writeErr_def Let_def)

lemma tagcount_write3 [simp]:
  "tagcount (upd_client t (\<lambda>k. k\<lparr>bw := snd (write3 sub mh msg (bw (clients st0 t)))\<rparr>) st) c' r =
     (if c' = t
      then tagcount st0 t r + (if r = sub \<and> writer_ok (bw (clients st0 t)) then 1 else 0)
      else tagcount st c' r)"
  by (simp add: tagcount_def upd_client_def write3_count)

lemma deliverMsg_effect:
  assumes d: "deliverMsg c sub mh msg st = Some st'"
  defines "t \<equiv> sub_client (subscriptions st sub)"
  defines "s \<equiv> subscriptions st sub"
  defines "closed \<equiv> conn (clients st t) = None"
  defines "e \<equiv> first_err (wq (bw (clients st t)))"
  shows "nsubs st' = nsubs st"
    and "MaxPingsOut st' = MaxPingsOut st"
    and "srv (clients st' c') = srv (clients st c')"
    and "opts (clients st' c') = opts (clients st c')"
    and "pa (clients st' c') = pa (clients st c')"
    and "subscriptions st' r =
           (if r = sub \<and> \<not> closed then s\<lparr>sub_nm := wrap_int64 (sub_nm s + 1)\<rparr> else subscriptions st r)"
    and "subs (clients st' c') =
           (if c' = t \<and> \<not> closed \<and> over_limit st sub
            then hm_Remove (sub_sid s) (subs (clients st t)) else subs (clients st c'))"
    and "sl st' =
           (if closed \<or> \<not> srv (clients st t) then sl st
            else if over_limit st sub then sl_Remove (sub_subject s) sub (sl st)
            else if e = WTimeout
            then remove_all (subscriptions st) (hm_All (subs (clients st t))) (sl st)
            else sl st)"
    and "tagcount st' c' r =
           tagcount st c' r +
           (if c' = t \<and> r = sub \<and> \<not> closed \<and> \<not> over_limit st sub \<and>
               writer_ok (bw (clients st t)) then 1 else 0)"
    and "(conn (clients st' c') = None) =
           (conn (clients st c') = None \<or>
            (c' = t \<and> \<not> over_limit st sub \<and> e = WTimeout))"
proof -
  have ra: "remove_all (subscriptions (deliver_pre sub mh msg st)) rs es =
            remove_all (subscriptions st) rs es" for rs es
    by (rule remove_all_cong) simp
  have ov: "over_limit st sub \<Longrightarrow>
      \<not> (0 < sub_max (subscriptions st sub) \<and>
         wrap_int64 (sub_nm (subscriptions st sub) + 1) \<le> sub_max (subscriptions st sub))"
    by (auto simp: over_limit_def)
  note [simp] = t_def s_def closed_def e_def ra
  from d show "nsubs st' = nsubs st"
    by (auto simp: deliverMsg_cases Let_def split: if_splits)
  from d show "MaxPingsOut st' = MaxPingsOut st"
    by (auto simp: deliverMsg_cases Let_def split: if_splits)
  from d show "srv (clients st' c') = srv (clients st c')"
    by (auto simp: deliverMsg_cases Let_def split: if_splits)
  from d show "opts (clients st' c') = opts (clients st c')"
    by (auto simp: deliverMsg_cases Let_def split: if_splits)
  from d show "pa (clients st' c') = pa (clients st c')"
    by (auto simp: deliverMsg_cases Let_def split: if_splits)
  from d show "subscriptions st' r =
           (if r = sub \<and> \<not> closed then s\<lparr>sub_nm := wrap_int64 (sub_nm s + 1)\<rparr> else subscriptions st r)"
    by (auto simp: deliverMsg_cases Let_def split: if_splits)
  from d show "subs (clients st' c') =
           (if c' = t \<and> \<not> closed \<and> over_limit st sub
            then hm_Remove (sub_sid s) (subs (clients st t)) else subs (clients st c'))"
    by (auto simp: deliverMsg_cases Let_def dest: ov split: if_splits)
  from d show "sl st' =
           (if closed \<or> \<not> srv (clients st t) then sl st
            else if over_limit st sub then sl_Remove (sub_subject s) sub (sl st)
            else if e = WTimeout
            then remove_all (subscriptions st) (hm_All (subs (clients st t))) (sl st)
            else sl st)"
    by (auto simp: deliverMsg_cases Let_def dest: ov split: if_splits)
  from d show "tagcount st' c' r =
           tagcount st c' r +
           (if c' = t \<and> r = sub \<and> \<not> closed \<and> \<not> over_limit st sub \<and>
               writer_ok (bw (clients st t)) then 1 else 0)"
    by (auto simp: deliverMsg_cases Let_def split: if_splits)
  from d show "(conn (clients st' c') = None) =
           (conn (clients st c') = None \<or>
            (c' = t \<and> \<not> over_limit st sub \<and> e = WTimeout))"
    by (auto simp: deliverMsg_cases Let_def split: if_splits)
qed

section \<open>Frames of the protocol operations\<close>

lemma processPub_frame [simp]:
  "nsubs (snd (processPub c arg st)) = nsubs st"
  "subscriptions (snd (processPub c arg st)) = subscriptions st"
  "sl (snd (processPub c arg st)) = sl st"
  "srv_clients (snd (processPub c arg st)) = srv_clients st"
  "MaxPingsOut (snd (processPub c arg st)) = MaxPingsOut st"
  "subs (clients (snd (processPub c arg st)) c') = subs (clients st c')"
  "conn (clients (snd (processPub c arg st)) c') = conn (clients st c')"
  "srv (clients (snd (processPub c arg st)) c') = srv (clients st c')"
  "opts (clients (snd (processPub c arg st)) c') = opts (clients st c')"
  "tagcount (snd (processPub c arg st)) c' r = tagcount st c' r"
  by (auto simp: processPub_def Let_def split: list.splits)

lemma processSub_error:
  "new_sub c (splitArg argo) = None \<Longrightarrow> processSub c argo st = (Some (SubParseError argo), st)"
  by (simp add: processSub_def)

lemma processSub_frame:
  assumes "new_sub c (splitArg argo) = Some s"
  shows "fst (processSub c argo st) = None"
    and "nsubs (snd (processSub c argo st)) = Suc (nsubs st)"
    and "subscriptions (snd (processSub c argo st)) = (subscriptions st)(nsubs st := s)"
    and "srv_clients (snd (processSub c argo st)) = srv_clients st"
    and "MaxPingsOut (snd (processSub c argo st)) = MaxPingsOut st"
    and "subs (clients (snd (processSub c argo st)) c') =
           (if c' = c then hm_Set (sub_sid s) (nsubs st) (subs (clients st c))
            else subs (clients st c'))"
    and "conn (clients (snd (processSub c argo st)) c') = conn (clients st c')"
    and "srv (clients (snd (processSub c argo st)) c') = srv (clients st c')"
    and "opts (clients (snd (processSub c argo st)) c') = opts (clients st c')"
    and "tagcount (snd (processSub c argo st)) c' r = tagcount st c' r"
    and "sl (snd (processSub c argo st)) =
           (if srv (clients st c) \<and> valid_subject (sub_subject s)
            then sl st @ [(sub_subject s, sub_queue s, nsubs st)] else sl st)"
  using assms
  by (auto simp: processSub_def Let_def sl_Insert_def upd_client_clients)

lemma processUnsub_error:
  "unsub_args arg = None \<Longrightarrow> processUnsub c arg st = (Some (UnsubParseError arg), st)"
  by (simp add: processUnsub_def)

lemma processUnsub_frame [simp]:
  "nsubs (snd (processUnsub c arg st)) = nsubs st"
  "srv_clients (snd (processUnsub c arg st)) = srv_clients st"
  "MaxPingsOut (snd (processUnsub c arg st)) = MaxPingsOut st"
  "conn (clients (snd (processUnsub c arg st)) c') = conn (clients st c')"
  "srv (clients (snd (processUnsub c arg st)) c') = srv (clients st c')"
  "opts (clients (snd (processUnsub c arg st)) c') = opts (clients st c')"
  "tagcount (snd (processUnsub c arg st)) c' r' = tagcount st c' r'"
  by (auto simp: processUnsub_def Let_def split: option.splits)

lemma processUnsub_effect:
  assumes a: "unsub_args arg = Some (sid, m)" and g: "hm_Get (subs (clients st c)) sid = Some r"
  defines "h \<equiv> (if 0 < m then (subscriptions st)(r := (subscriptions st r)\<lparr>sub_max := m\<rparr>)
                 else subscriptions st)"
  defines "keeps \<equiv> 0 < sub_max (h r) \<and> sub_nm (h r) \<le> sub_max (h r)"
  shows "fst (processUnsub c arg st) = None"
    and "subscriptions (snd (processUnsub c arg st)) = h"
    and "subs (clients (snd (processUnsub c arg st)) c') =
           (if c' = c \<and> \<not> keeps then hm_Remove (sub_sid (h r)) (subs (clients st c))
            else subs (clients st c'))"
    and "sl (snd (processUnsub c arg st)) =
           (if \<not> keeps \<and> srv (clients st c) then sl_Remove (sub_subject (h r)) r (sl st)
            else sl st)"
  using a g unfolding h_def keeps_def
  by (auto simp: processUnsub_def Let_def fun_eq_iff)

lemma processUnsub_unknown:
  assumes a: "unsub_args arg = Some (sid, m)" and g: "hm_Get (subs (clients st c)) sid = None"
  shows "fst (processUnsub c arg st) = None"
    and "subscriptions (snd (processUnsub c arg st)) = subscriptions st"
    and "subs (clients (snd (processUnsub c arg st)) c') = subs (clients st c')"
    and "sl (snd (processUnsub c arg st)) = sl st"
  using a g by (auto simp: processUnsub_def Let_def)

section \<open>Lists of entries\<close>

lemma set_sl_Remove: "set (sl_Remove s r es) \<subseteq> set es"
  by (induction es) auto

lemma distinct_sl_Remove:
  "distinct (map (\<lambda>e. snd (snd e)) es) \<Longrightarrow> distinct (map (\<lambda>e. snd (snd e)) (sl_Remove s r es))"
proof (induction es)
  case Nil
  then show ?case by simp
next
  case (Cons e es)
  then show ?case using set_sl_Remove [of s r es] by auto
qed

lemma refs_Cons: "refs (e # es) = insert (snd (snd e)) (refs es)"
  by (simp add: refs_def)

lemma refs_sl_Remove:
  assumes "distinct (map (\<lambda>e. snd (snd e)) es)"
    and "\<forall>e \<in> set es. snd (snd e) = r \<longrightarrow> fst e = s"
  shows "refs (sl_Remove s r es) = refs es - {r}"
  using assms
proof (induction es)
  case Nil
  then show ?case by (simp add: refs_def)
next
  case (Cons e es)
  have d: "distinct (map (\<lambda>e. snd (snd e)) es)" and n: "snd (snd e) \<notin> refs es"
    using Cons.prems(1) by (simp_all add: refs_def)
  have a: "\<forall>e \<in> set es. snd (snd e) = r \<longrightarrow> fst e = s"
    using Cons.prems(2) by simp
  have ih: "refs (sl_Remove s r es) = refs es - {r}"
    by (rule Cons.IH [OF d a])
  show ?case
  proof (cases "fst e = s \<and> snd (snd e) = r")
    case True
    then have "sl_Remove s r (e # es) = es" by simp
    moreover have "refs (e # es) - {r} = refs es"
      using True n by (auto simp: refs_Cons)
    ultimately show ?thesis by simp
  next
    case False
    have ne: "snd (snd e) \<noteq> r"
      using False Cons.prems(2) by auto
    have "sl_Remove s r (e # es) = e # sl_Remove s r es"
      using False by auto
    then have "refs (sl_Remove s r (e # es)) = insert (snd (snd e)) (refs es - {r})"
      by (simp add: refs_Cons ih)
    also have "\<dots> = refs (e # es) - {r}"
      using ne by (auto simp: refs_Cons)
    finally show ?thesis .
  qed
qed

lemma refs_sl_Remove_subset: "refs (sl_Remove s r es) \<subseteq> refs es"
  using set_sl_Remove [of s r es] by (auto simp: refs_def)

lemma set_remove_all: "set (remove_all h rs es) \<subseteq> set es"
proof (induction rs arbitrary: es)
  case Nil
  then show ?case by (simp add: remove_all_def)
next
  case (Cons r rs)
  have "set (remove_all h rs (sl_Remove (sub_subject (h r)) r es)) \<subseteq> set (sl_Remove (sub_subject (h r)) r es)"
    by (rule Cons.IH)
  then show ?case using set_sl_Remove [of "sub_subject (h r)" r es]
    by (auto simp: remove_all_def)
qed

lemma distinct_remove_all:
  "distinct (map (\<lambda>e. snd (snd e)) es) \<Longrightarrow> distinct (map (\<lambda>e. snd (snd e)) (remove_all h rs es))"
proof (induction rs arbitrary: es)
  case Nil
  then show ?case by (simp add: remove_all_def)
next
  case (Cons r rs)
  from Cons.IH [OF distinct_sl_Remove [OF Cons.prems]] show ?case
    by (simp add: remove_all_def)
qed

lemma remove_all_Cons:
  "remove_all h (r # rs) es = remove_all h rs (sl_Remove (sub_subject (h r)) r es)"
  by (simp add: remove_all_def)

lemma refs_remove_all:
  assumes "distinct (map (\<lambda>e. snd (snd e)) es)"
    and "\<forall>e \<in> set es. fst e = sub_subject (h (snd (snd e)))"
  shows "refs (remove_all h rs es) = refs es - set rs"
  using assms
proof (induction rs arbitrary: es)
  case Nil
  then show ?case by (simp add: remove_all_def)
next
  case (Cons r rs)
  let ?es = "sl_Remove (sub_subject (h r)) r es"
  have d: "distinct (map (\<lambda>e. snd (snd e)) ?es)"
    by (rule distinct_sl_Remove [OF Cons.prems(1)])
  have s: "\<forall>e \<in> set ?es. fst e = sub_subject (h (snd (snd e)))"
    using Cons.prems(2) set_sl_Remove [of "sub_subject (h r)" r es] by blast
  have p: "\<forall>e \<in> set es. snd (snd e) = r \<longrightarrow> fst e = sub_subject (h r)"
    using Cons.prems(2) by blast
  have "refs (remove_all h (r # rs) es) = refs ?es - set rs"
    unfolding remove_all_Cons by (rule Cons.IH [OF d s])
  also have "\<dots> = (refs es - {r}) - set rs"
    by (simp only: refs_sl_Remove [OF Cons.prems(1) p])
  also have "\<dots> = refs es - set (r # rs)"
    by auto
  finally show ?case .
qed

section \<open>sid-maps\<close>

lemma hm_Get_Set: "hm_Get (hm_Set k v m) k' = (if k' = k then Some v else hm_Get m k')"
  by (simp add: hm_Get_def hm_Set_def update_conv')

lemma hm_Get_Remove: "hm_Get (hm_Remove k m) k' = (if k' = k then None else hm_Get m k')"
  by (simp add: hm_Get_def hm_Remove_def delete_conv')

lemma distinct_hm_Set: "distinct (map fst m) \<Longrightarrow> distinct (map fst (hm_Set k v m))"
  by (simp add: hm_Set_def distinct_update)

lemma distinct_hm_Remove: "distinct (map fst m) \<Longrightarrow> distinct (map fst (hm_Remove k m))"
  by (simp add: hm_Remove_def distinct_delete)

lemma hm_All_iff:
  assumes "distinct (map fst m)"
  shows "r \<in> set (hm_All m) \<longleftrightarrow> (\<exists>k. hm_Get m k = Some r)"
proof
  assume "r \<in> set (hm_All m)"
  then obtain k where "(k, r) \<in> set m" by (auto simp: hm_All_def)
  with assms have "map_of m k = Some r" by simp
  then show "\<exists>k. hm_Get m k = Some r" by (auto simp: hm_Get_def)
next
  assume "\<exists>k. hm_Get m k = Some r"
  then obtain k where "map_of m k = Some r" by (auto simp: hm_Get_def)
  then have "(k, r) \<in> set m" by (rule map_of_SomeD)
  then show "r \<in> set (hm_All m)" by (force simp: hm_All_def)
qed

section \<open>Well-formed states\<close>

lemma delivered_tagcount: "delivered st r = tagcount st (sub_client (subscriptions st r)) r"
  by (simp add: delivered_def tagcount_def)

lemma in_index_refs: "in_index st r = (r \<in> refs (sl st))"
  by (simp add: in_index_def refs_def)

lemma wfD_distinct: "wf_state st \<Longrightarrow> distinct (map fst (subs (clients st c)))"
  by (simp add: wf_state_def)

lemma wfD_sidmap:
  "wf_state st \<Longrightarrow> hm_Get (subs (clients st c)) sid = Some r \<Longrightarrow>
   r < nsubs st \<and> sub_client (subscriptions st r) = c \<and> sub_sid (subscriptions st r) = sid"
  by (simp add: wf_state_def)

lemma wfD_index:
  "wf_state st \<Longrightarrow> e \<in> set (sl st) \<Longrightarrow>
   snd (snd e) < nsubs st \<and>
   sub_subject (subscriptions st (snd (snd e))) = fst e \<and>
   sub_queue (subscriptions st (snd (snd e))) = fst (snd e) \<and>
   valid_subject (fst e) \<and>
   srv (clients st (sub_client (subscriptions st (snd (snd e)))))"
  by (simp add: wf_state_def)

lemma wfD_refs_distinct: "wf_state st \<Longrightarrow> distinct (map (\<lambda>e. snd (snd e)) (sl st))"
  by (simp add: wf_state_def)

lemma wfD_tags:
  "wf_state st \<Longrightarrow> 0 < tagcount st c r \<Longrightarrow> r < nsubs st \<and> sub_client (subscriptions st r) = c"
  by (simp add: wf_state_def)

lemma wfD_refs: "wf_state st \<Longrightarrow> r \<in> refs (sl st) \<Longrightarrow> r < nsubs st"
  by (auto simp: refs_def dest: wfD_index)

lemma in_sidmap_iff:
  assumes "wf_state st"
  shows "in_sidmap st r \<longleftrightarrow>
     hm_Get (subs (clients st (sub_client (subscriptions st r)))) (sub_sid (subscriptions st r)) = Some r"
proof -
  let ?m = "subs (clients st (sub_client (subscriptions st r)))"
  have "in_sidmap st r \<longleftrightarrow> (\<exists>k. hm_Get ?m k = Some r)"
    unfolding in_sidmap_def by (rule hm_All_iff [OF wfD_distinct [OF assms]])
  also have "\<dots> \<longleftrightarrow> hm_Get ?m (sub_sid (subscriptions st r)) = Some r"
    using wfD_sidmap [OF assms] by blast
  finally show ?thesis .
qed

text \<open>A transition that allocates nothing and only removes registrations keeps \<open>wf_state\<close>.\<close>

lemma wf_shrink:
  assumes w: "wf_state st"
    and n: "nsubs st' = nsubs st"
    and i: "\<And>r. sub_client (subscriptions st' r) = sub_client (subscriptions st r) \<and>
                sub_sid (subscriptions st' r) = sub_sid (subscriptions st r) \<and>
                sub_subject (subscriptions st' r) = sub_subject (subscriptions st r) \<and>
                sub_queue (subscriptions st' r) = sub_queue (subscriptions st r)"
    and v: "\<And>c. srv (clients st' c) = srv (clients st c)"
    and m: "\<And>c. subs (clients st' c) = subs (clients st c) \<or>
                (\<exists>k. subs (clients st' c) = hm_Remove k (subs (clients st c)))"
    and s: "set (sl st') \<subseteq> set (sl st)"
    and d: "distinct (map (\<lambda>e. snd (snd e)) (sl st'))"
    and t: "\<And>c r. 0 < tagcount st' c r \<Longrightarrow>
                0 < tagcount st c r \<or> (r < nsubs st \<and> sub_client (subscriptions st r) = c)"
  shows "wf_state st'"
proof -
  have g: "hm_Get (subs (clients st' c)) sid = Some r \<Longrightarrow>
           hm_Get (subs (clients st c)) sid = Some r" for c sid r
    using m [of c] by (auto simp: hm_Get_Remove split: if_splits)
  have 1: "distinct (map fst (subs (clients st' c)))" for c
    using m [of c] wfD_distinct [OF w, of c] by (auto simp: distinct_hm_Remove)
  have 2: "r < nsubs st' \<and> sub_client (subscriptions st' r) = c \<and>
           sub_sid (subscriptions st' r) = sid"
    if "hm_Get (subs (clients st' c)) sid = Some r" for c sid r
    using wfD_sidmap [OF w g [OF that]] n i [of r] by simp
  have 3: "snd (snd e) < nsubs st' \<and>
      sub_subject (subscriptions st' (snd (snd e))) = fst e \<and>
      sub_queue (subscriptions st' (snd (snd e))) = fst (snd e) \<and>
      valid_subject (fst e) \<and>
      srv (clients st' (sub_client (subscriptions st' (snd (snd e)))))"
    if "e \<in> set (sl st')" for e
  proof -
    from that s have "e \<in> set (sl st)" by blast
    from wfD_index [OF w this] show ?thesis
      using n i [of "snd (snd e)"] v by simp
  qed
  have 5: "r < nsubs st' \<and> sub_client (subscriptions st' r) = c"
    if "0 < tagcount st' c r" for c r
    using t [OF that] wfD_tags [OF w, of c r] n i [of r] by auto
  show ?thesis
    unfolding wf_state_def using 1 2 3 d 5 by blast
qed

lemma wf_state_unsubscribe: "wf_state st \<Longrightarrow> wf_state (unsubscribe c r st)"
proof (rule wf_shrink, assumption)
  assume w: "wf_state st"
  show "set (sl (unsubscribe c r st)) \<subseteq> set (sl st)"
    using set_sl_Remove by auto
  show "distinct (map (\<lambda>e. snd (snd e)) (sl (unsubscribe c r st)))"
    using wfD_refs_distinct [OF w] by (auto simp: distinct_sl_Remove)
qed (auto)

lemma wf_state_closeConnection: "wf_state st \<Longrightarrow> wf_state (closeConnection c st)"
proof (rule wf_shrink, assumption)
  assume w: "wf_state st"
  show "set (sl (closeConnection c st)) \<subseteq> set (sl st)"
    using set_remove_all by auto
  show "distinct (map (\<lambda>e. snd (snd e)) (sl (closeConnection c st)))"
    using wfD_refs_distinct [OF w] by (auto simp: distinct_remove_all)
qed (auto)

lemma wf_state_cong:
  assumes "wf_state st" "nsubs st' = nsubs st"
    "\<And>r. sub_client (subscriptions st' r) = sub_client (subscriptions st r) \<and>
                sub_sid (subscriptions st' r) = sub_sid (subscriptions st r) \<and>
                sub_subject (subscriptions st' r) = sub_subject (subscriptions st r) \<and>
                sub_queue (subscriptions st' r) = sub_queue (subscriptions st r)"
    "\<And>c. srv (clients st' c) = srv (clients st c)"
    "\<And>c. subs (clients st' c) = subs (clients st c)"
    "sl st' = sl st"
    "\<And>c r. tagcount st' c r = tagcount st c r"
  shows "wf_state st'"
  by (rule wf_shrink [OF assms(1,2,3,4)]) (use assms in \<open>auto simp: wfD_refs_distinct\<close>)

lemma wf_state_sendOK: "wf_state st \<Longrightarrow> wf_state (sendOK c st)"
  by (erule wf_state_cong) auto

lemma wf_state_sendErr: "wf_state st \<Longrightarrow> wf_state (sendErr c e st)"
  by (erule wf_state_cong) auto

lemma wf_state_processPub: "wf_state st \<Longrightarrow> wf_state (snd (processPub c arg st))"
  by (erule wf_state_cong) auto

lemma wf_state_parse_failed: "wf_state st \<Longrightarrow> wf_state (parse_failed c st)"
  by (simp add: parse_failed_def wf_state_closeConnection wf_state_sendErr)

lemma wf_state_Environ:
  "wf_state st \<Longrightarrow> wf_state (upd_client c (\<lambda>k. k\<lparr>bw := (bw k)\<lparr>wq := q, avail := a\<rparr>\<rparr>) st)"
  by (erule wf_state_cong) (auto simp: tagcount_def upd_client_def)

lemma wf_state_deliverMsg:
  assumes w: "wf_state st" and d: "deliverMsg c sub mh msg st = Some st'"
    and r: "sub < nsubs st"
  shows "wf_state st'"
proof (rule wf_shrink [OF w])
  note e = deliverMsg_effect [OF d]
  show "nsubs st' = nsubs st" by (rule e)
  show "sub_client (subscriptions st' r) = sub_client (subscriptions st r) \<and>
        sub_sid (subscriptions st' r) = sub_sid (subscriptions st r) \<and>
        sub_subject (subscriptions st' r) = sub_subject (subscriptions st r) \<and>
        sub_queue (subscriptions st' r) = sub_queue (subscriptions st r)" for r
    by (simp add: e(6))
  show "srv (clients st' c) = srv (clients st c)" for c by (rule e)
  show "subs (clients st' c) = subs (clients st c) \<or>
        (\<exists>k. subs (clients st' c) = hm_Remove k (subs (clients st c)))" for c
    by (auto simp: e(7))
  show "set (sl st') \<subseteq> set (sl st)"
    using set_sl_Remove set_remove_all by (auto simp: e(8))
  show "distinct (map (\<lambda>e. snd (snd e)) (sl st'))"
    using wfD_refs_distinct [OF w] by (auto simp: e(8) distinct_sl_Remove distinct_remove_all)
  show "0 < tagcount st c r \<or> r < nsubs st \<and> sub_client (subscriptions st r) = c"
    if "0 < tagcount st' c r" for c r
    using that r by (auto simp: e(9) split: if_splits)
qed

lemma new_sub_fields:
  "new_sub c args = Some s \<Longrightarrow> sub_client s = c \<and> sub_nm s = 0 \<and> sub_max s = 0"
  by (auto simp: new_sub_def split: list.splits)

lemma wf_state_processSub:
  assumes w: "wf_state st"
  shows "wf_state (snd (processSub c argo st))"
proof (cases "new_sub c (splitArg argo)")
  case None
  then show ?thesis using w by (simp add: processSub_error)
next
  case (Some s)
  note f = processSub_frame [OF Some]
  let ?st = "snd (processSub c argo st)"
  have own: "sub_client s = c" using new_sub_fields [OF Some] by simp
  have fresh: "nsubs st \<notin> refs (sl st)"
    using wfD_refs [OF w, of "nsubs st"] by auto
  have 1: "distinct (map fst (subs (clients ?st c')))" for c'
    using wfD_distinct [OF w] by (simp add: f distinct_hm_Set)
  have 2: "r < nsubs ?st \<and> sub_client (subscriptions ?st r) = c' \<and>
           sub_sid (subscriptions ?st r) = sid"
    if "hm_Get (subs (clients ?st c')) sid = Some r" for c' sid r
  proof (cases "c' = c \<and> sid = sub_sid s")
    case True
    with that have "r = nsubs st" by (simp add: f hm_Get_Set)
    then show ?thesis using True own by (simp add: f)
  next
    case False
    with that have "hm_Get (subs (clients st c')) sid = Some r"
      by (auto simp: f hm_Get_Set split: if_splits)
    from wfD_sidmap [OF w this] show ?thesis by (auto simp: f)
  qed
  have 3: "snd (snd e) < nsubs ?st \<and>
      sub_subject (subscriptions ?st (snd (snd e))) = fst e \<and>
      sub_queue (subscriptions ?st (snd (snd e))) = fst (snd e) \<and>
      valid_subject (fst e) \<and>
      srv (clients ?st (sub_client (subscriptions ?st (snd (snd e)))))"
    if "e \<in> set (sl ?st)" for e
  proof (cases "e \<in> set (sl st)")
    case True
    from wfD_index [OF w this] show ?thesis by (auto simp: f)
  next
    case False
    with that have "e = (sub_subject s, sub_queue s, nsubs st)"
      and "srv (clients st c)" and "valid_subject (sub_subject s)"
      by (auto simp: f split: if_splits)
    then show ?thesis using own by (simp add: f)
  qed
  have 4: "distinct (map (\<lambda>e. snd (snd e)) (sl ?st))"
    using wfD_refs_distinct [OF w] fresh by (auto simp: f refs_def)
  have 5: "r < nsubs ?st \<and> sub_client (subscriptions ?st r) = c'"
    if "0 < tagcount ?st c' r" for c' r
  proof -
    from that have "0 < tagcount st c' r" by (simp add: f)
    from wfD_tags [OF w this] show ?thesis by (auto simp: f)
  qed
  show ?thesis
    unfolding wf_state_def using 1 2 3 4 5 by blast
qed

lemma wf_state_processUnsub:
  assumes w: "wf_state st"
  shows "wf_state (snd (processUnsub c arg st))"
proof (cases "unsub_args arg")
  case None
  then show ?thesis using w by (simp add: processUnsub_error)
next
  case (Some a)
  obtain sid m where a: "unsub_args arg = Some (sid, m)" using Some by (cases a) auto
  show ?thesis
  proof (cases "hm_Get (subs (clients st c)) sid")
    case None
    note u = processUnsub_unknown [OF a None]
    show ?thesis by (rule wf_state_cong [OF w]) (simp_all add: u)
  next
    case (Some r)
    note e = processUnsub_effect [OF a Some]
    show ?thesis
    proof (rule wf_shrink [OF w])
      show "set (sl (snd (processUnsub c arg st))) \<subseteq> set (sl st)"
        using set_sl_Remove by (auto simp: e)
      show "distinct (map (\<lambda>e. snd (snd e)) (sl (snd (processUnsub c arg st))))"
        using wfD_refs_distinct [OF w] by (auto simp: e distinct_sl_Remove)
      show "subs (clients (snd (processUnsub c arg st)) c') = subs (clients st c') \<or>
            (\<exists>k. subs (clients (snd (processUnsub c arg st)) c') = hm_Remove k (subs (clients st c')))" for c'
        by (auto simp: e)
    qed (auto simp: e)
  qed
qed

end
